theory Spec2Isabelle
  imports Complex_Main
begin

section \<open>Common Python values and exceptions\<close>

text \<open>
  The exceptions the modelled code can raise. A function of the source that may raise
  returns \<open>py_error + 'a\<close>, with \<open>Inl\<close> for the exception.
\<close>

datatype py_error =
    ZeroDivisionError
  | FileNotFoundError
  | StopIteration
  | AttributeError
  | IndexError
  | RuntimeError
  | AssertionError

text \<open>
  Python's \<open>range(a, b)\<close> over unbounded integers: \<open>a, a + 1, ..., b - 1\<close>, empty when
  \<open>b \<le> a\<close>.
\<close>

definition py_range :: "int \<Rightarrow> int \<Rightarrow> int list" where
  "py_range a b = [a..b - 1]"

text \<open>
  The values a constructor argument or a dictionary entry can hold. A Python float is
  kept as the real number its literal denotes.
\<close>

datatype pyval = PyInt int | PyBool bool | PyFloat real | PyStr string | PyNone

type_synonym pydict = "string \<rightharpoonup> pyval"

text \<open>
  A dictionary display \<open>{k1: v1, k2: v2, ...}\<close> stores its entries from left to right,
  so a key written twice keeps the value written last.
\<close>

definition dict_display :: "(string \<times> pyval) list \<Rightarrow> pydict" where
  "dict_display entries = fold (\<lambda>(k, v) d. d(k \<mapsto> v)) entries Map.empty"

section \<open>The training architecture (TTSTrainingInterfaces/ToucanTTS/ToucanTTS.py)\<close>

subsection \<open>The constructor (lines 42 to 153)\<close>

text \<open>The parameters of \<open>ToucanTTS.__init__\<close> with their defaults, in the order of the signature.\<close>

definition init_defaults :: "(string \<times> pyval) list" where
  "init_defaults =
     [(''input_feature_dimensions'', PyInt 62),
      (''attention_dimension'', PyInt 256),
      (''attention_heads'', PyInt 4),
      (''positionwise_conv_kernel_size'', PyInt 1),
      (''use_scaled_positional_encoding'', PyBool True),
      (''init_type'', PyStr ''xavier_uniform''),
      (''use_macaron_style_in_conformer'', PyBool True),
      (''use_cnn_in_conformer'', PyBool False),
      (''encoder_layers'', PyInt 6),
      (''encoder_units'', PyInt 1280),
      (''encoder_normalize_before'', PyBool True),
      (''encoder_concat_after'', PyBool False),
      (''conformer_encoder_kernel_size'', PyInt 7),
      (''transformer_enc_dropout_rate'', PyFloat (1 / 10)),
      (''transformer_enc_positional_dropout_rate'', PyFloat (1 / 10)),
      (''transformer_enc_attn_dropout_rate'', PyFloat (1 / 10)),
      (''decoder_layers'', PyInt 8),
      (''decoder_units'', PyInt 1280),
      (''decoder_concat_after'', PyBool False),
      (''conformer_decoder_kernel_size'', PyInt 1),
      (''decoder_normalize_before'', PyBool False),
      (''transformer_dec_dropout_rate'', PyFloat (1 / 10)),
      (''transformer_dec_positional_dropout_rate'', PyFloat (1 / 10)),
      (''transformer_dec_attn_dropout_rate'', PyFloat (1 / 10)),
      (''duration_predictor_layers'', PyInt 5),
      (''duration_predictor_kernel_size'', PyInt 5),
      (''duration_predictor_dropout_rate'', PyFloat (2 / 10)),
      (''pitch_predictor_layers'', PyInt 5),
      (''pitch_predictor_kernel_size'', PyInt 5),
      (''pitch_predictor_dropout'', PyFloat (3 / 10)),
      (''pitch_embed_kernel_size'', PyInt 1),
      (''pitch_embed_dropout'', PyFloat 0),
      (''energy_predictor_layers'', PyInt 2),
      (''energy_predictor_kernel_size'', PyInt 3),
      (''energy_predictor_dropout'', PyFloat (5 / 10)),
      (''energy_embed_kernel_size'', PyInt 1),
      (''energy_embed_dropout'', PyFloat 0),
      (''utt_embed_dim'', PyInt 512),
      (''lang_embs'', PyInt 8000),
      (''use_conditional_layernorm_embedding_integration'', PyBool False),
      (''num_codebooks'', PyInt 9),
      (''codebook_dim'', PyInt 8),
      (''codebook_size'', PyInt 1024)]"

text \<open>
  Binding the arguments of a call: a keyword argument that is given wins, every other
  parameter takes its default.
\<close>

definition bind_args :: "pydict \<Rightarrow> string \<Rightarrow> pyval" where
  "bind_args kwargs name =
     (case kwargs name of
        Some v \<Rightarrow> v
      | None \<Rightarrow> (case map_of init_defaults name of Some v \<Rightarrow> v | None \<Rightarrow> PyNone))"

text \<open>The dictionary display of lines 101 to 145, entry by entry.\<close>

definition config_entries :: "(string \<Rightarrow> pyval) \<Rightarrow> (string \<times> pyval) list" where
  "config_entries arg =
       [(''input_feature_dimensions'', arg ''input_feature_dimensions''),
        (''attention_dimension'', arg ''attention_dimension''),
        (''attention_heads'', arg ''attention_heads''),
        (''positionwise_conv_kernel_size'', arg ''positionwise_conv_kernel_size''),
        (''use_scaled_positional_encoding'', arg ''use_scaled_positional_encoding''),
        (''init_type'', arg ''init_type''),
        (''use_macaron_style_in_conformer'', arg ''use_macaron_style_in_conformer''),
        (''use_cnn_in_conformer'', arg ''use_cnn_in_conformer''),
        (''encoder_layers'', arg ''encoder_layers''),
        (''encoder_units'', arg ''encoder_units''),
        (''encoder_normalize_before'', arg ''encoder_normalize_before''),
        (''encoder_concat_after'', arg ''encoder_concat_after''),
        (''conformer_encoder_kernel_size'', arg ''conformer_encoder_kernel_size''),
        (''transformer_enc_dropout_rate'', arg ''transformer_enc_dropout_rate''),
        (''transformer_enc_positional_dropout_rate'', arg ''transformer_enc_positional_dropout_rate''),
        (''transformer_enc_attn_dropout_rate'', arg ''transformer_enc_attn_dropout_rate''),
        (''decoder_layers'', arg ''decoder_layers''),
        (''decoder_units'', arg ''decoder_units''),
        (''decoder_concat_after'', arg ''decoder_concat_after''),
        (''conformer_decoder_kernel_size'', arg ''conformer_decoder_kernel_size''),
        (''decoder_normalize_before'', arg ''decoder_normalize_before''),
        (''transformer_dec_dropout_rate'', arg ''transformer_dec_dropout_rate''),
        (''transformer_dec_positional_dropout_rate'', arg ''transformer_dec_positional_dropout_rate''),
        (''transformer_dec_attn_dropout_rate'', arg ''transformer_dec_attn_dropout_rate''),
        (''duration_predictor_layers'', arg ''duration_predictor_layers''),
        (''duration_predictor_kernel_size'', arg ''duration_predictor_kernel_size''),
        (''duration_predictor_dropout_rate'', arg ''duration_predictor_dropout_rate''),
        (''pitch_predictor_layers'', arg ''pitch_predictor_layers''),
        (''pitch_predictor_kernel_size'', arg ''pitch_predictor_kernel_size''),
        (''pitch_predictor_dropout'', arg ''pitch_predictor_dropout''),
        (''pitch_embed_kernel_size'', arg ''pitch_embed_kernel_size''),
        (''pitch_embed_dropout'', arg ''pitch_embed_dropout''),
        (''energy_predictor_layers'', arg ''energy_predictor_layers''),
        (''energy_predictor_kernel_size'', arg ''energy_predictor_kernel_size''),
        (''energy_predictor_dropout'', arg ''energy_predictor_dropout''),
        (''energy_embed_kernel_size'', arg ''energy_embed_kernel_size''),
        (''energy_embed_dropout'', arg ''energy_embed_dropout''),
        (''utt_embed_dim'', arg ''utt_embed_dim''),
        (''lang_embs'', arg ''lang_embs''),
        (''use_conditional_layernorm_embedding_integration'', arg ''use_conditional_layernorm_embedding_integration''),
        (''num_codebooks'', arg ''num_codebooks''),
        (''codebook_dim'', arg ''codebook_dim''),
        (''codebook_dim'', arg ''codebook_size'')]"

text \<open>
  The attributes the constructor sets on the module (lines 101 to 153). The layers it
  builds afterwards are not part of this record; the classifier heads are modelled below.
\<close>

record toucan_tts =
  self_config :: pydict
  self_input_feature_dimensions :: pyval
  self_attention_dimension :: pyval
  self_use_scaled_pos_enc :: pyval
  self_multilingual_model :: bool
  self_multispeaker_model :: bool
  self_num_codebooks :: pyval
  self_codebook_dim :: pyval

definition ToucanTTS_init :: "pydict \<Rightarrow> toucan_tts" where
  "ToucanTTS_init kwargs =
     (let arg = bind_args kwargs in
      \<lparr> self_config = dict_display (config_entries arg),
        self_input_feature_dimensions = arg ''input_feature_dimensions'',
        self_attention_dimension = arg ''attention_dimension'',
        self_use_scaled_pos_enc = arg ''use_scaled_positional_encoding'',
        self_multilingual_model = (arg ''lang_embs'' \<noteq> PyNone),
        self_multispeaker_model = (arg ''utt_embed_dim'' \<noteq> PyNone),
        self_num_codebooks = arg ''num_codebooks'',
        self_codebook_dim = arg ''codebook_dim'' \<rparr>)"

section \<open>The meta training loop (toucantts\_meta\_train\_loop.py)\<close>

subsection \<open>The step target (lines 54 to 57)\<close>

text \<open>
  \<open>steps % steps_per_checkpoint\<close> is Python's floored remainder, which is \<open>mod\<close> on
  \<open>int\<close>; a zero divisor raises.
\<close>

definition adjust_steps :: "int \<Rightarrow> int \<Rightarrow> py_error + int" where
  "adjust_steps steps steps_per_checkpoint =
     (if steps_per_checkpoint = 0 then Inl ZeroDivisionError
      else if steps mod steps_per_checkpoint = 0 then Inr (steps + 1)
      else Inr (steps + ((steps_per_checkpoint + 1) - (steps mod steps_per_checkpoint))))"

text \<open>
  The spec's words for the same number: the step target rounded up to the next
  checkpoint boundary, that is the smallest multiple of the checkpoint interval that is
  not below the target.
\<close>

definition is_next_boundary :: "int \<Rightarrow> int \<Rightarrow> int \<Rightarrow> bool" where
  "is_next_boundary steps steps_per_checkpoint m \<longleftrightarrow>
     steps_per_checkpoint dvd m \<and> steps \<le> m \<and>
     (\<forall>m'. steps_per_checkpoint dvd m' \<and> steps \<le> m' \<longrightarrow> m \<le> m')"

definition next_boundary :: "int \<Rightarrow> int \<Rightarrow> int" where
  "next_boundary steps steps_per_checkpoint =
     ((steps + steps_per_checkpoint - 1) div steps_per_checkpoint) * steps_per_checkpoint"

subsection \<open>The summed loss of a step (lines 129 to 168)\<close>

text \<open>
  The value of a scalar loss tensor: a finite number, an infinity, or not a number. The
  sum of two finite values is taken exactly; rounding and overflow are not modelled.
\<close>

datatype xfloat = Fin real | PInf | NInf | NaN

fun fadd :: "xfloat \<Rightarrow> xfloat \<Rightarrow> xfloat" where
  "fadd NaN y = NaN"
| "fadd x NaN = NaN"
| "fadd PInf NInf = NaN"
| "fadd NInf PInf = NaN"
| "fadd PInf y = PInf"
| "fadd x PInf = PInf"
| "fadd NInf y = NInf"
| "fadd x NInf = NInf"
| "fadd (Fin a) (Fin b) = Fin (a + b)"

definition isnan :: "xfloat \<Rightarrow> bool" where
  "isnan x \<longleftrightarrow> x = NaN"

definition isfinite :: "xfloat \<Rightarrow> bool" where
  "isfinite x \<longleftrightarrow> (case x of Fin r \<Rightarrow> True | _ \<Rightarrow> False)"

text \<open>
  \<open>train_loss\<close> starts as the Python float \<open>0.0\<close> and becomes a tensor with the first
  loss that is added to it. Only a tensor has the method \<open>backward\<close>.
\<close>

datatype train_loss = PythonFloat xfloat | Tensor xfloat

fun add_loss :: "train_loss \<Rightarrow> xfloat \<Rightarrow> train_loss" where
  "add_loss (PythonFloat a) l = Tensor (fadd a l)"
| "add_loss (Tensor a) l = Tensor (fadd a l)"

definition accumulate :: "train_loss \<Rightarrow> xfloat \<Rightarrow> train_loss" where
  "accumulate train_loss l = (if \<not> isnan l then add_loss train_loss l else train_loss)"

definition sum_losses :: "xfloat \<Rightarrow> xfloat \<Rightarrow> xfloat \<Rightarrow> xfloat \<Rightarrow> xfloat \<Rightarrow> train_loss" where
  "sum_losses regression_loss glow_loss duration_loss pitch_loss energy_loss =
     accumulate (accumulate (accumulate (accumulate (accumulate (PythonFloat (Fin 0))
       regression_loss) glow_loss) duration_loss) pitch_loss) energy_loss"

text \<open>\<open>train_loss.backward()\<close>: the value that is propagated back, or the exception.\<close>

fun backward :: "train_loss \<Rightarrow> py_error + xfloat" where
  "backward (Tensor x) = Inr x"
| "backward (PythonFloat x) = Inl AttributeError"

subsection \<open>Drawing the batches of a step (lines 106 to 117)\<close>

text \<open>
  The iterators of the tasks, each as the list of batches it still has to give, and the
  number of times each has been created anew. A data loader shuffles, so the batches of
  an iterator depend on how often it has been created: \<open>loaders index k\<close> is the content
  of the iterator that the \<open>k\<close>-th call of \<open>iter(train_loaders[index])\<close> returns.
\<close>

record 'b sources =
  train_iters :: "'b list list"
  restarts :: "nat list"

text \<open>
  Lines 111 to 117. The second \<open>next\<close>, on the fresh iterator, is outside the \<open>try\<close>:
  an empty data loader lets \<open>StopIteration\<close> escape.
\<close>

definition draw ::
  "(nat \<Rightarrow> nat \<Rightarrow> 'b list) \<Rightarrow> nat \<Rightarrow> 'b sources \<Rightarrow> py_error + ('b \<times> 'b sources)" where
  "draw loaders index s =
     (if index < length (train_iters s)
      then (case train_iters s ! index of
              batch # rest \<Rightarrow> Inr (batch, s\<lparr>train_iters := (train_iters s)[index := rest]\<rparr>)
            | [] \<Rightarrow>
                (case loaders index (Suc (restarts s ! index)) of
                   [] \<Rightarrow> Inl StopIteration
                 | batch # rest \<Rightarrow>
                     Inr (batch, s\<lparr>train_iters := (train_iters s)[index := rest],
                                   restarts := (restarts s)[index := Suc (restarts s ! index)]\<rparr>)))
      else Inl IndexError)"

text \<open>
  The \<open>for\<close> loop of line 108 over one sampled order of the task indices. The state holds
  the iterators, the list \<open>batches\<close>, and, as a ghost value, the indices of the tasks
  drawn from so far.
\<close>

fun pass ::
  "(nat \<Rightarrow> nat \<Rightarrow> 'b list) \<Rightarrow> nat \<Rightarrow> nat list \<Rightarrow> 'b sources \<times> 'b list \<times> nat list \<Rightarrow>
   py_error + ('b sources \<times> 'b list \<times> nat list)" where
  "pass loaders batch_size [] st = Inr st"
| "pass loaders batch_size (index # order) (s, batches, drawn) =
     (if length batches < batch_size
      then (case draw loaders index s of
              Inl e \<Rightarrow> Inl e
            | Inr (batch, s') \<Rightarrow>
                pass loaders batch_size order (s', batches @ [batch], drawn @ [index]))
      else pass loaders batch_size order (s, batches, drawn))"

text \<open>
  The \<open>while\<close> loop of line 107. \<open>sample k\<close> is the order that the \<open>k\<close>-th call of
  \<open>random.sample\<close> returns. With no task the loop never ends, which is the value \<open>None\<close>.
\<close>

partial_function (option) gather ::
  "(nat \<Rightarrow> nat \<Rightarrow> 'b list) \<Rightarrow> (nat \<Rightarrow> nat list) \<Rightarrow> nat \<Rightarrow> nat \<Rightarrow>
   'b sources \<times> 'b list \<times> nat list \<Rightarrow> (py_error + ('b sources \<times> 'b list \<times> nat list)) option" where
  "gather loaders sample batch_size k st =
     (if length (fst (snd st)) < batch_size
      then (case pass loaders batch_size (sample k) st of
              Inl e \<Rightarrow> Some (Inl e)
            | Inr st' \<Rightarrow> gather loaders sample batch_size (Suc k) st')
      else Some (Inr st))"

text \<open>
  What a step needs of its inputs to draw without an exception: \<open>n\<close> tasks with an
  iterator each, data loaders that are not empty, and sampled orders that are
  permutations of the task indices.
\<close>

definition sources_ok :: "nat \<Rightarrow> 'b sources \<Rightarrow> bool" where
  "sources_ok n s \<longleftrightarrow> length (train_iters s) = n \<and> length (restarts s) = n"

definition loaders_ok :: "nat \<Rightarrow> (nat \<Rightarrow> nat \<Rightarrow> 'b list) \<Rightarrow> bool" where
  "loaders_ok n loaders \<longleftrightarrow> (\<forall>index < n. \<forall>k. loaders index k \<noteq> [])"

definition sample_ok :: "nat \<Rightarrow> (nat \<Rightarrow> nat list) \<Rightarrow> bool" where
  "sample_ok n sample \<longleftrightarrow> (\<forall>k. distinct (sample k) \<and> set (sample k) = {0..<n})"

text \<open>The sum of the losses that are not NaN, taken in the order of the source.\<close>

definition sum_not_nan :: "xfloat list \<Rightarrow> xfloat" where
  "sum_not_nan ls = foldl fadd (Fin 0) (filter (\<lambda>l. \<not> isnan l) ls)"

text \<open>The value a \<open>train_loss\<close> holds, and whether it is a tensor.\<close>

fun loss_value :: "train_loss \<Rightarrow> xfloat" where
  "loss_value (PythonFloat a) = a"
| "loss_value (Tensor a) = a"

fun is_tensor :: "train_loss \<Rightarrow> bool" where
  "is_tensor (PythonFloat a) = False"
| "is_tensor (Tensor a) = True"

text \<open>
  Drawing one batch after the other from the tasks of a list, and the list of the tasks
  that a step visits: the sampled orders of its passes, one after the other, cut off
  after \<open>m\<close> entries.
\<close>

fun draw_all ::
  "(nat \<Rightarrow> nat \<Rightarrow> 'b list) \<Rightarrow> nat list \<Rightarrow> 'b sources \<Rightarrow> py_error + ('b list \<times> 'b sources)" where
  "draw_all loaders [] s = Inr ([], s)"
| "draw_all loaders (index # order) s =
     (case draw loaders index s of
        Inl e \<Rightarrow> Inl e
      | Inr (batch, s1) \<Rightarrow>
          (case draw_all loaders order s1 of
             Inl e \<Rightarrow> Inl e
           | Inr (batches, s2) \<Rightarrow> Inr (batch # batches, s2)))"

definition task_order :: "(nat \<Rightarrow> nat list) \<Rightarrow> nat \<Rightarrow> nat \<Rightarrow> nat list" where
  "task_order sample k m = take m (concat (map sample [k..<k + m]))"

text \<open>Two tasks with two batches each, and orders that alternate, for running a step.\<close>

definition demo_loaders :: "nat \<Rightarrow> nat \<Rightarrow> nat list" where
  "demo_loaders index k = [10 * index + 1, 10 * index + 2]"

definition demo_sample :: "nat \<Rightarrow> nat list" where
  "demo_sample k = (if even k then [1, 0] else [0, 1])"

definition demo_sources :: "nat sources" where
  "demo_sources = \<lparr> train_iters = [[2], []], restarts = [0, 0] \<rparr>"

subsection \<open>Checkpoints, the trainer and its collaborators\<close>

text \<open>
  A checkpoint file as \<open>torch.save\<close> writes it at lines 184 to 192. The types \<open>'w\<close>,
  \<open>'o\<close> and \<open>'s\<close> stand for the state dictionaries of the model, of the optimizer and of
  the scheduler, and \<open>'b\<close> for a batch. The default embedding stored with them plays no
  part in what follows and is left out.
\<close>

record ('w, 'o, 's) checkpoint =
  ck_model :: 'w
  ck_optimizer :: 'o
  ck_scheduler :: 's
  ck_step_counter :: int
  ck_config :: pydict

text \<open>
  The state the loop works on: the live model (its parameters and its \<open>config\<close>
  attribute), optimizer and scheduler, the iterators of the tasks, the checkpoint files
  of the save directory in the order they were written, the file \<open>best.pt\<close>, and, as a
  ghost field, the step counters of the iterations that have run.
\<close>

record ('w, 'o, 's, 'b) trainer =
  net :: 'w
  net_config :: pydict
  optimizer :: 'o
  scheduler :: 's
  data_sources :: "'b sources"
  checkpoint_files :: "('w, 'o, 's) checkpoint list"
  best_file :: "'w option"
  executed :: "int list"

text \<open>
  What the loop takes from outside the sources at hand, as parameters.
  \<^item> \<open>train_loaders index k\<close> is the content of the \<open>k\<close>-th iterator of the data loader of task
    \<open>index\<close>, and \<open>random_sample step_counter k\<close> the order that the \<open>k\<close>-th call of
    \<open>random.sample\<close> in the iteration \<open>step_counter\<close> returns.
  \<^item> \<open>forward\<close> stands for lines 118 to 145: collating the batches, the style embedding
    and the call of the net, which give the five losses (reconstruction, flow, duration,
    pitch, energy) or raise.
  \<^item> \<open>optimizer_step\<close> stands for lines 167 and 169 to 171: the gradients that the backward
    pass of the summed loss leaves, their clipping, and the steps of optimizer and
    scheduler.
  \<^item> The remaining ones are the functions imported from \<open>Utility.utils\<close> and
    \<open>run_weight_averaging\<close>, \<open>torch.load\<close>, and the constructors of optimizer and
    scheduler. \<open>save_model_for_use\<close> gives what the file it writes holds under the key
    \<open>model\<close>.
\<close>

record ('w, 'o, 's, 'b) collaborators =
  train_loaders :: "nat \<Rightarrow> nat \<Rightarrow> 'b list"
  random_sample :: "int \<Rightarrow> nat \<Rightarrow> nat list"
  forward :: "'w \<Rightarrow> 'b list \<Rightarrow> py_error + (xfloat \<times> xfloat \<times> xfloat \<times> xfloat \<times> xfloat)"
  optimizer_step :: "'w \<Rightarrow> 'o \<Rightarrow> 's \<Rightarrow> 'b list \<Rightarrow> xfloat \<Rightarrow> 'w \<times> 'o \<times> 's"
  delete_old_checkpoints :: "('w, 'o, 's) checkpoint list \<Rightarrow> nat \<Rightarrow> ('w, 'o, 's) checkpoint list"
  get_n_recent_checkpoints_paths :: "('w, 'o, 's) checkpoint list \<Rightarrow> nat \<Rightarrow> ('w, 'o, 's) checkpoint list"
  average_checkpoints :: "('w, 'o, 's) checkpoint list \<Rightarrow> 'w"
  save_model_for_use :: "'w \<Rightarrow> 'w"
  get_most_recent_checkpoint :: "('w, 'o, 's) checkpoint list \<Rightarrow> string option"
  torch_load :: "string \<Rightarrow> py_error + ('w, 'o, 's) checkpoint"
  AdamW :: "'o"
  WarmupScheduler :: "int \<Rightarrow> 's"

subsection \<open>Starting from a checkpoint (lines 88 to 99)\<close>

text \<open>
  The result is the trainer, the value of \<open>steps_run_previously\<close>, and whether the
  function returns at line 99.
\<close>

definition restore ::
  "('w, 'o, 's, 'b) collaborators \<Rightarrow> bool \<Rightarrow> bool \<Rightarrow> string option \<Rightarrow> int \<Rightarrow>
   ('w, 'o, 's, 'b) trainer \<Rightarrow> py_error + (('w, 'o, 's, 'b) trainer \<times> int \<times> bool)" where
  "restore C resume fine_tune path_to_checkpoint steps t =
     (let path = (if resume then get_most_recent_checkpoint C (checkpoint_files t)
                  else path_to_checkpoint)
      in case path of
           None \<Rightarrow> Inr (t, 0, False)
         | Some p \<Rightarrow>
             (case torch_load C p of
                Inl e \<Rightarrow> Inl e
              | Inr check_dict \<Rightarrow>
                  (let t1 = t\<lparr>net := ck_model check_dict\<rparr>;
                       t2 = (if \<not> fine_tune
                             then t1\<lparr>optimizer := ck_optimizer check_dict,
                                     scheduler := ck_scheduler check_dict\<rparr>
                             else t1);
                       steps_run_previously =
                         (if \<not> fine_tune then ck_step_counter check_dict else 0)
                   in Inr (t2, steps_run_previously, steps_run_previously > steps))))"

subsection \<open>One iteration of the loop (lines 105 to 233)\<close>

text \<open>
  Lines 106 to 171, the pass over the batches of one step: the batches are drawn, the
  forward pass gives the five losses, those that are not NaN are summed, the backward
  pass runs on the sum, and optimizer and scheduler make their steps. The result is the
  new state of model, optimizer, scheduler and iterators. The pass raises when drawing
  raises, when the forward pass raises, and when \<open>backward\<close> is called on the Python float;
  it never ends, which is the value \<open>None\<close>, when drawing never ends.
\<close>

definition training_pass ::
  "('w, 'o, 's, 'b) collaborators \<Rightarrow> nat \<Rightarrow> int \<Rightarrow> ('w, 'o, 's, 'b) trainer \<Rightarrow>
   (py_error + ('w \<times> 'o \<times> 's \<times> 'b sources)) option" where
  "training_pass C batch_size step_counter t =
     (case gather (train_loaders C) (random_sample C step_counter) batch_size 0 (data_sources t, [], []) of
        None \<Rightarrow> None
      | Some (Inl e) \<Rightarrow> Some (Inl e)
      | Some (Inr (train_iters', batches, drawn)) \<Rightarrow>
          (case forward C (net t) batches of
             Inl e \<Rightarrow> Some (Inl e)
           | Inr (regression_loss, glow_loss, duration_loss, pitch_loss, energy_loss) \<Rightarrow>
               (case backward (sum_losses regression_loss glow_loss duration_loss pitch_loss
                                 energy_loss) of
                  Inl e \<Rightarrow> Some (Inl e)
                | Inr train_loss \<Rightarrow>
                    (case optimizer_step C (net t) (optimizer t) (scheduler t) batches
                            train_loss of
                       (w, opt, sch) \<Rightarrow> Some (Inr (w, opt, sch, train_iters'))))))"

text \<open>
  \<open>checkpoint_dict\<close> is the dictionary that lines 184 to 191 hand to \<open>torch.save\<close>.
\<close>

definition checkpoint_dict ::
  "('w, 'o, 's, 'b) trainer \<Rightarrow> int \<Rightarrow> ('w, 'o, 's) checkpoint" where
  "checkpoint_dict t step_counter =
     \<lparr> ck_model = net t, ck_optimizer = optimizer t, ck_scheduler = scheduler t,
       ck_step_counter = step_counter, ck_config = net_config t \<rparr>"

text \<open>
  The whole body of the loop: the pass, and then lines 173 to 233.
  \<open>step_counter > steps * 4 / 5\<close> compares an integer with the quotient of a true
  division; the model compares with the exact quotient. \<open>steps\<close> is the variable as the
  loop sees it, after the reassignment of lines 54 to 57. Lines 229 to 231 write the
  averaged model to \<open>best.pt\<close> and load what that file holds under the key \<open>model\<close> into
  the live model. An iteration raises or never ends when its pass does. The calls of
  lines 177 to 231 into code that is not part of the sources at hand (the default
  embedding, \<open>torch.save\<close>, the progress plot, the helpers of the averaging) are taken to
  return; logging and the lists of past losses have no part in the state.
\<close>

definition train_iteration ::
  "('w, 'o, 's, 'b) collaborators \<Rightarrow> int \<Rightarrow> int \<Rightarrow> nat \<Rightarrow> int \<Rightarrow> ('w, 'o, 's, 'b) trainer \<Rightarrow>
   (py_error + ('w, 'o, 's, 'b) trainer) option" where
  "train_iteration C steps steps_per_checkpoint batch_size step_counter t =
     (case training_pass C batch_size step_counter t of
        None \<Rightarrow> None
      | Some (Inl e) \<Rightarrow> Some (Inl e)
      | Some (Inr (w, opt, sch, train_iters')) \<Rightarrow>
          (let t1 = t\<lparr>net := w, optimizer := opt, scheduler := sch,
                      data_sources := train_iters',
                      executed := executed t @ [step_counter]\<rparr>
           in if step_counter mod steps_per_checkpoint = 0 \<and> step_counter \<noteq> 0
              then
                (let saved = checkpoint_dict t1 step_counter;
                     t2 = t1\<lparr>checkpoint_files :=
                               delete_old_checkpoints C (checkpoint_files t1 @ [saved]) 5\<rparr>
                 in if real_of_int step_counter > real_of_int (steps * 4) / 5
                    then
                      (let checkpoint_paths =
                             get_n_recent_checkpoints_paths C (checkpoint_files t2) 2;
                           averaged_model = average_checkpoints C checkpoint_paths;
                           check_dict_model = save_model_for_use C averaged_model
                       in Some (Inr (t2\<lparr>best_file := Some check_dict_model,
                                         net := check_dict_model\<rparr>)))
                    else Some (Inr t2))
              else Some (Inr t1)))"

text \<open>
  The \<open>for\<close> loop of line 105 over the step counters: it stops at the first iteration that
  raises or never ends.
\<close>

fun run_steps ::
  "('w, 'o, 's, 'b) collaborators \<Rightarrow> int \<Rightarrow> int \<Rightarrow> nat \<Rightarrow> int list \<Rightarrow> ('w, 'o, 's, 'b) trainer \<Rightarrow>
   (py_error + ('w, 'o, 's, 'b) trainer) option" where
  "run_steps C steps steps_per_checkpoint batch_size [] t = Some (Inr t)"
| "run_steps C steps steps_per_checkpoint batch_size (step_counter # rest) t =
     (case train_iteration C steps steps_per_checkpoint batch_size step_counter t of
        None \<Rightarrow> None
      | Some (Inl e) \<Rightarrow> Some (Inl e)
      | Some (Inr t') \<Rightarrow> run_steps C steps steps_per_checkpoint batch_size rest t')"

subsection \<open>The whole function\<close>

text \<open>
  The arguments: the net as the parameters it holds and the module that the constructor
  built, the number of datasets, the checkpoint files that the save directory holds, and
  the arguments of the source by their names.
\<close>

record ('w, 'o, 's) train_args =
  arg_net :: 'w
  arg_model :: toucan_tts
  arg_datasets :: nat
  arg_save_directory :: "('w, 'o, 's) checkpoint list"
  arg_batch_size :: nat
  arg_steps :: int
  arg_steps_per_checkpoint :: int
  arg_path_to_checkpoint :: "string option"
  arg_resume :: bool
  arg_fine_tune :: bool

text \<open>
  Lines 52 to 99: the step target, one iterator for each dataset, the fresh optimizer and
  scheduler, and the start from a checkpoint. The result holds the value of \<open>steps\<close>
  after line 57, the trainer, the value of \<open>steps_run_previously\<close>, and whether the
  function returns at line 99.
\<close>

definition train_setup ::
  "('w, 'o, 's, 'b) collaborators \<Rightarrow> ('w, 'o, 's) train_args \<Rightarrow>
   py_error + (int \<times> ('w, 'o, 's, 'b) trainer \<times> int \<times> bool)" where
  "train_setup C a =
     (case adjust_steps (arg_steps a) (arg_steps_per_checkpoint a) of
        Inl e \<Rightarrow> Inl e
      | Inr steps \<Rightarrow>
          (let t0 = \<lparr> net = arg_net a, net_config = self_config (arg_model a),
                       optimizer = AdamW C, scheduler = WarmupScheduler C steps,
                       data_sources =
                         \<lparr> train_iters = map (\<lambda>index. train_loaders C index 0) [0..<arg_datasets a],
                           restarts = replicate (arg_datasets a) 0 \<rparr>,
                       checkpoint_files = arg_save_directory a, best_file = None,
                       executed = [] \<rparr>
           in case restore C (arg_resume a) (arg_fine_tune a) (arg_path_to_checkpoint a) steps t0 of
                Inl e \<Rightarrow> Inl e
              | Inr (t, steps_run_previously, returned) \<Rightarrow>
                  Inr (steps, t, steps_run_previously, returned)))"

definition train_loop ::
  "('w, 'o, 's, 'b) collaborators \<Rightarrow> ('w, 'o, 's) train_args \<Rightarrow>
   (py_error + ('w, 'o, 's, 'b) trainer) option" where
  "train_loop C a =
     (case train_setup C a of
        Inl e \<Rightarrow> Some (Inl e)
      | Inr (steps, t, steps_run_previously, returned) \<Rightarrow>
          if returned then Some (Inr t)
          else run_steps C steps (arg_steps_per_checkpoint a) (arg_batch_size a)
                 (py_range steps_run_previously steps) t)"

text \<open>
  What makes every pass complete: at least one task, data loaders that are not empty,
  sampled orders that are permutations of the task indices, and a forward pass that
  returns five losses of which at least one is not NaN.
\<close>

definition forward_ok :: "('w, 'o, 's, 'b) collaborators \<Rightarrow> bool" where
  "forward_ok C \<longleftrightarrow>
     (\<forall>w batches. \<exists>r g d p e.
        forward C w batches = Inr (r, g, d, p, e) \<and>
        \<not> (isnan r \<and> isnan g \<and> isnan d \<and> isnan p \<and> isnan e))"

definition passes_complete :: "('w, 'o, 's, 'b) collaborators \<Rightarrow> nat \<Rightarrow> bool" where
  "passes_complete C n \<longleftrightarrow>
     0 < n \<and> loaders_ok n (train_loaders C) \<and> (\<forall>step_counter. sample_ok n (random_sample C step_counter)) \<and>
     forward_ok C"

text \<open>
  A small instance of the collaborators, used to run the loop on concrete inputs: the two
  tasks and the orders from above, losses of 1, a model with one real parameter that
  every step raises by one, an optimizer and a scheduler that count their steps, a
  directory that keeps the newest files, and the mean as average.
\<close>

definition demo :: "(real, nat, nat, nat) collaborators" where
  "demo = \<lparr> train_loaders = demo_loaders,
            random_sample = (\<lambda>step_counter. demo_sample),
            forward = (\<lambda>w batches. Inr (Fin 1, Fin 1, Fin 1, Fin 1, Fin 1)),
            optimizer_step = (\<lambda>w opt sch batches train_loss. (w + 1, Suc opt, Suc sch)),
            delete_old_checkpoints = (\<lambda>files keep. drop (length files - keep) files),
            get_n_recent_checkpoints_paths = (\<lambda>files n. drop (length files - n) files),
            average_checkpoints = (\<lambda>files. sum_list (map ck_model files) / real (length files)),
            save_model_for_use = (\<lambda>model. model),
            get_most_recent_checkpoint =
              (\<lambda>files. if files = [] then None else Some ''checkpoint.pt''),
            torch_load =
              (\<lambda>path. if path = ''checkpoint_3.pt''
                       then Inr \<lparr> ck_model = 7, ck_optimizer = 4, ck_scheduler = 4,
                                  ck_step_counter = 3, ck_config = Map.empty \<rparr>
                       else Inl FileNotFoundError),
            AdamW = 0,
            WarmupScheduler = (\<lambda>max_steps. 0) \<rparr>"

definition demo_args :: "int \<Rightarrow> int \<Rightarrow> (real, nat, nat) train_args" where
  "demo_args steps steps_per_checkpoint =
     \<lparr> arg_net = 0, arg_model = ToucanTTS_init Map.empty, arg_datasets = 2,
       arg_save_directory = [], arg_batch_size = 2,
       arg_steps = steps, arg_steps_per_checkpoint = steps_per_checkpoint,
       arg_path_to_checkpoint = None, arg_resume = False, arg_fine_tune = False \<rparr>"

text \<open>The number of iterations a run of the loop has made, if it returns.\<close>

definition steps_executed ::
  "(py_error + ('w, 'o, 's, 'b) trainer) option \<Rightarrow> (py_error + nat) option" where
  "steps_executed r =
     (case r of None \<Rightarrow> None | Some (Inl e) \<Rightarrow> Some (Inl e)
      | Some (Inr t) \<Rightarrow> Some (Inr (length (executed t))))"

text \<open>
  The condition under which an iteration runs the averaging of lines 225 to 231, with the
  comparison of line 225 cleared of its division.
\<close>

definition swa_due :: "int \<Rightarrow> int \<Rightarrow> int \<Rightarrow> bool" where
  "swa_due steps steps_per_checkpoint step_counter \<longleftrightarrow>
     step_counter mod steps_per_checkpoint = 0 \<and> step_counter \<noteq> 0 \<and>
     4 * steps < 5 * step_counter"

text \<open>Concrete trainers, checkpoints and arguments for running the loop.\<close>

definition demo_start :: "(real, nat, nat, nat) trainer" where
  "demo_start = \<lparr> net = 0, net_config = Map.empty, optimizer = 0, scheduler = 0,
                   data_sources = demo_sources,
                   checkpoint_files = [], best_file = None, executed = [] \<rparr>"

definition demo_ck :: "real \<Rightarrow> nat \<Rightarrow> int \<Rightarrow> (real, nat, nat) checkpoint" where
  "demo_ck w n sc = \<lparr> ck_model = w, ck_optimizer = n, ck_scheduler = n,
       ck_step_counter = sc, ck_config = Map.empty \<rparr>"

definition demo_resume :: "bool \<Rightarrow> (real, nat, nat) train_args" where
  "demo_resume fine_tune =
     (demo_args 10 5)\<lparr>arg_path_to_checkpoint := Some ''checkpoint_3.pt'',
                      arg_fine_tune := fine_tune\<rparr>"

text \<open>
  The trainer that a fresh run with the concrete arguments starts from, and the trainer
  after its first four iterations.
\<close>

definition demo_fresh :: "(real, nat, nat, nat) trainer" where
  "demo_fresh = \<lparr> net = 0, net_config = self_config (ToucanTTS_init Map.empty),
                   optimizer = 0, scheduler = 0,
                   data_sources = \<lparr> train_iters = [[1, 2], [11, 12]], restarts = [0, 0] \<rparr>,
                   checkpoint_files = [], best_file = None, executed = [] \<rparr>"

definition demo_trained :: "(real, nat, nat, nat) trainer" where
  "demo_trained = demo_fresh\<lparr>net := 4, optimizer := 4, scheduler := 4,
                     data_sources := \<lparr> train_iters = [[], []], restarts = [1, 1] \<rparr>,
                     executed := [0, 1, 2, 3]\<rparr>"

section \<open>Tensors, indexing and rounding\<close>

text \<open>
  Reading and writing one position of a one-dimensional tensor or of a list. An index
  that is out of range raises.
\<close>

definition getitem :: "'a list \<Rightarrow> nat \<Rightarrow> py_error + 'a" where
  "getitem xs i = (if i < length xs then Inr (xs ! i) else Inl IndexError)"

definition setitem :: "'a list \<Rightarrow> nat \<Rightarrow> 'a \<Rightarrow> py_error + 'a list" where
  "setitem xs i v = (if i < length xs then Inr (xs[i := v]) else Inl IndexError)"

text \<open>Running the next statement on the result of the last, unless that raised.\<close>

definition and_then :: "py_error + 'a \<Rightarrow> ('a \<Rightarrow> py_error + 'b) \<Rightarrow> py_error + 'b" where
  "and_then m f = (case m of Inl e \<Rightarrow> Inl e | Inr x \<Rightarrow> f x)"

text \<open>\<open>torch.round\<close> followed by \<open>.long()\<close>: the nearest integer, a tie going to the even one.\<close>

definition torch_round :: "real \<Rightarrow> int" where
  "torch_round x =
     (let f = \<lfloor>x\<rfloor>; r = x - of_int f
      in if r < 1 / 2 then f else if 1 / 2 < r then f + 1 else if even f then f else f + 1)"

section \<open>The inference architecture (InferenceToucanTTS.py)\<close>

subsection \<open>Predictions, gold values and overrides (lines 237 to 253)\<close>

text \<open>
  The text is a list of phoneme vectors. \<open>lookup\<close> stands for the table that
  \<open>get_feature_to_index_lookup()\<close> returns, which is not part of the sources at hand.
  A pitch or energy curve of shape \<open>[1, T, 1]\<close> is the list of its \<open>T\<close> values, the
  durations of shape \<open>[1, T]\<close> the list of their \<open>T\<close> integers. Real numbers stand for
  floats, and products are taken exactly.

  One pass of the loop body, lines 243 to 250, for the phoneme at \<open>phoneme_index\<close>.
\<close>

definition override_token ::
  "(string \<Rightarrow> nat) \<Rightarrow> real \<Rightarrow> nat \<Rightarrow> real list \<Rightarrow> real list \<times> real list \<times> int list \<Rightarrow>
   py_error + (real list \<times> real list \<times> int list)" where
  "override_token lookup pause_duration_scaling_factor phoneme_index phoneme_vector st =
     (case st of (pitch_predictions, energy_predictions, predicted_durations) \<Rightarrow>
      and_then (getitem phoneme_vector (lookup ''voiced'')) (\<lambda>voiced.
      and_then (if voiced = 0 then setitem pitch_predictions phoneme_index 0
                else Inr pitch_predictions) (\<lambda>p.
      and_then (getitem phoneme_vector (lookup ''phoneme'')) (\<lambda>phoneme.
      and_then (if phoneme = 0 then setitem energy_predictions phoneme_index 0
                else Inr energy_predictions) (\<lambda>e.
      and_then (getitem phoneme_vector (lookup ''word-boundary'')) (\<lambda>word_boundary.
      and_then (if word_boundary = 1 then setitem predicted_durations phoneme_index 0
                else Inr predicted_durations) (\<lambda>d.
      and_then (getitem phoneme_vector (lookup ''silence'')) (\<lambda>silence.
      and_then (if silence = 1 \<and> pause_duration_scaling_factor \<noteq> 1
                then and_then (getitem d phoneme_index) (\<lambda>x.
                       setitem d phoneme_index
                         (torch_round (real_of_int x * pause_duration_scaling_factor)))
                else Inr d) (\<lambda>d'.
      Inr (p, e, d'))))))))))"

text \<open>The loop of line 242 over the phonemes, counting from \<open>phoneme_index\<close>.\<close>

fun override_loop ::
  "(string \<Rightarrow> nat) \<Rightarrow> real \<Rightarrow> nat \<Rightarrow> real list list \<Rightarrow> real list \<times> real list \<times> int list \<Rightarrow>
   py_error + (real list \<times> real list \<times> int list)" where
  "override_loop lookup pause phoneme_index [] st = Inr st"
| "override_loop lookup pause phoneme_index (phoneme_vector # text) st =
     and_then (override_token lookup pause phoneme_index phoneme_vector st)
       (override_loop lookup pause (Suc phoneme_index) text)"

text \<open>
  Lines 237 to 250. The outputs of the three predictors, which are not part of the
  sources at hand, are parameters; a gold value that the caller gives takes the place of
  the prediction before the loop runs: \<open>gold_or gold prediction\<close> is the conditional
  expression \<open>prediction if gold is None else gold\<close>.
\<close>

definition gold_or :: "'a option \<Rightarrow> 'a \<Rightarrow> 'a" where
  "gold_or gold prediction = (case gold of None \<Rightarrow> prediction | Some g \<Rightarrow> g)"

definition overrides ::
  "(string \<Rightarrow> nat) \<Rightarrow> real list list \<Rightarrow> real list \<Rightarrow> real list \<Rightarrow> int list \<Rightarrow>
   real list option \<Rightarrow> real list option \<Rightarrow> int list option \<Rightarrow> real \<Rightarrow>
   py_error + (real list \<times> real list \<times> int list)" where
  "overrides lookup text_tensors pitch_predictor energy_predictor duration_predictor
     gold_pitch gold_energy gold_durations pause_duration_scaling_factor =
     (let pitch_predictions = gold_or gold_pitch pitch_predictor;
          energy_predictions = gold_or gold_energy energy_predictor;
          predicted_durations = gold_or gold_durations duration_predictor
      in override_loop lookup pause_duration_scaling_factor 0 text_tensors
           (pitch_predictions, energy_predictions, predicted_durations))"

text \<open>Lines 251 to 253.\<close>

definition scale_durations :: "int list \<Rightarrow> real \<Rightarrow> py_error + int list" where
  "scale_durations predicted_durations duration_scaling_factor =
     (if duration_scaling_factor \<noteq> 1
      then (if duration_scaling_factor > 0
            then Inr (map (\<lambda>x. torch_round (real_of_int x * duration_scaling_factor))
                        predicted_durations)
            else Inl AssertionError)
      else Inr predicted_durations)"

subsection \<open>Scaling the variance of a curve (lines 365 to 375)\<close>

text \<open>The loop of lines 372 to 374 over the positions of the curve.\<close>

definition clip_negative :: "real list \<Rightarrow> real list" where
  "clip_negative sequence =
     fold (\<lambda>sequence_index s. if s ! sequence_index < 0 then s[sequence_index := 0] else s)
       [0..<length sequence] sequence"

text \<open>
  The mean of an empty selection is not a number, and then so is every entry of the
  result: that result is \<open>None\<close>.
\<close>

definition scale_variance :: "real list \<Rightarrow> real \<Rightarrow> real list option" where
  "scale_variance sequence scale =
     (if scale = 1 then Some sequence
      else (let selected = filter (\<lambda>x. x \<noteq> 0) sequence
            in if selected = [] then None
               else (let average = sum_list selected / real (length selected)
                     in Some (clip_negative
                                (map (\<lambda>x. (x - average) * scale + average) sequence)))))"

subsection \<open>The control block as a whole (lines 237 to 255)\<close>

definition controls ::
  "(string \<Rightarrow> nat) \<Rightarrow> real list list \<Rightarrow> real list \<Rightarrow> real list \<Rightarrow> int list \<Rightarrow>
   real list option \<Rightarrow> real list option \<Rightarrow> int list option \<Rightarrow> real \<Rightarrow> real \<Rightarrow> real \<Rightarrow> real \<Rightarrow>
   py_error + (real list option \<times> real list option \<times> int list)" where
  "controls lookup text_tensors pitch_predictor energy_predictor duration_predictor
     gold_pitch gold_energy gold_durations
     duration_scaling_factor pitch_variance_scale energy_variance_scale
     pause_duration_scaling_factor =
     and_then (overrides lookup text_tensors pitch_predictor energy_predictor duration_predictor
                 gold_pitch gold_energy gold_durations pause_duration_scaling_factor)
       (\<lambda>(pitch_predictions, energy_predictions, predicted_durations).
          and_then (scale_durations predicted_durations duration_scaling_factor)
            (\<lambda>predicted_durations.
               Inr (scale_variance pitch_predictions pitch_variance_scale,
                    scale_variance energy_predictions energy_variance_scale,
                    predicted_durations)))"

section \<open>Overrides in the training architecture (ToucanTTS.py, lines 337 to 365)\<close>

text \<open>The loop of lines 344 to 346.\<close>

fun word_boundary_loop ::
  "(string \<Rightarrow> nat) \<Rightarrow> nat \<Rightarrow> real list list \<Rightarrow> int list \<Rightarrow> py_error + int list" where
  "word_boundary_loop lookup phoneme_index [] predicted_durations = Inr predicted_durations"
| "word_boundary_loop lookup phoneme_index (phoneme_vector # text) predicted_durations =
     and_then (getitem phoneme_vector (lookup ''word-boundary'')) (\<lambda>word_boundary.
     and_then (if word_boundary = 1 then setitem predicted_durations phoneme_index 0
               else Inr predicted_durations)
       (word_boundary_loop lookup (Suc phoneme_index) text))"

text \<open>
  The durations that \<open>_forward\<close> returns. With \<open>is_inference\<close> they are the frame counts
  of \<open>duration_predictor.inference\<close> after the loop; in training mode they are the output
  of the duration predictor as it is, and the gold durations drive the length regulator.
  The two outputs of the predictor are parameters.
\<close>

datatype predicted_durations = Frames "int list" | Raw "real list"

definition forward_durations ::
  "(string \<Rightarrow> nat) \<Rightarrow> bool \<Rightarrow> real list list \<Rightarrow> int list \<Rightarrow> real list \<Rightarrow>
   py_error + predicted_durations" where
  "forward_durations lookup is_inference text_tensors duration_predictor_inference
     duration_predictor =
     (if is_inference
      then and_then (word_boundary_loop lookup 0 text_tensors duration_predictor_inference)
             (\<lambda>d. Inr (Frames d))
      else Inr (Raw duration_predictor))"

section \<open>Auxiliary notions for the properties of the overrides and of the scaling\<close>

text \<open>
  A text whose phoneme vectors are long enough to hold the four features that the
  overrides read, the value of a feature of a phoneme vector, and the same for the
  word-boundary feature alone.
\<close>

definition text_ok :: "(string \<Rightarrow> nat) \<Rightarrow> real list list \<Rightarrow> bool" where
  "text_ok lookup text_tensors \<longleftrightarrow>
     (\<forall>v \<in> set text_tensors.
        lookup ''voiced'' < length v \<and> lookup ''phoneme'' < length v \<and>
        lookup ''word-boundary'' < length v \<and> lookup ''silence'' < length v)"

definition flag :: "(string \<Rightarrow> nat) \<Rightarrow> real list \<Rightarrow> string \<Rightarrow> real" where
  "flag lookup phoneme_vector name = phoneme_vector ! lookup name"

definition wb_ok :: "(string \<Rightarrow> nat) \<Rightarrow> real list list \<Rightarrow> bool" where
  "wb_ok lookup text_tensors \<longleftrightarrow>
     (\<forall>v \<in> set text_tensors. lookup ''word-boundary'' < length v)"

text \<open>
  A feature table and a text of four phonemes for running the overrides: a voiced
  phoneme, an unvoiced phoneme, a word boundary and a silence.
\<close>

definition demo_lookup :: "string \<Rightarrow> nat" where
  "demo_lookup name =
     (if name = ''voiced'' then 0 else if name = ''phoneme'' then 1
      else if name = ''word-boundary'' then 2 else 3)"

definition demo_text :: "real list list" where
  "demo_text = [[1, 1, 0, 0], [0, 1, 0, 0], [0, 0, 1, 0], [0, 0, 0, 1]]"

text \<open>
  The spec's words for the scaling: the mean of the entries that are not zero, and the
  mean that a result has at the positions where the input is not zero.
\<close>

definition nonzero_mean :: "real list \<Rightarrow> real" where
  "nonzero_mean sequence =
     sum_list (filter (\<lambda>x. x \<noteq> 0) sequence) / real (length (filter (\<lambda>x. x \<noteq> 0) sequence))"

definition mean_where_nonzero :: "real list \<Rightarrow> real list \<Rightarrow> real" where
  "mean_where_nonzero sequence result =
     (let selected = map snd (filter (\<lambda>(x, y). x \<noteq> 0) (zip sequence result))
      in sum_list selected / real (length selected))"

section \<open>The hierarchical classifier heads (ToucanTTS.py, lines 229 to 231 and 371 to 390)\<close>

subsection \<open>Tensors of three dimensions\<close>

text \<open>
  A tensor of shape \<open>[B, T, F]\<close> is a list of \<open>B\<close> sequences of \<open>T\<close> frames of \<open>F\<close>
  features each. A list cannot tell the width of its frames when it has none, so
  tensors without a frame are outside what follows.
\<close>

type_synonym tensor = "real list list list"

definition has_width :: "nat \<Rightarrow> tensor \<Rightarrow> bool" where
  "has_width w t \<longleftrightarrow> (\<forall>s \<in> set t. \<forall>frame \<in> set s. length frame = w)"

definition same_shape :: "tensor \<Rightarrow> tensor \<Rightarrow> bool" where
  "same_shape t u \<longleftrightarrow> map length t = map length u"

definition last_dim :: "tensor \<Rightarrow> nat" where
  "last_dim t = (case concat t of [] \<Rightarrow> 0 | frame # _ \<Rightarrow> length frame)"

text \<open>
  \<open>torch.cat(tensors, dim=2)\<close>: the frames at the same position are joined, in the
  order of the list. The list must not be empty and its tensors must agree in the two
  other dimensions.
\<close>

definition cat2 :: "tensor \<Rightarrow> tensor \<Rightarrow> tensor" where
  "cat2 t u = map2 (map2 (@)) t u"

definition cat_dim2 :: "tensor list \<Rightarrow> py_error + tensor" where
  "cat_dim2 tensors =
     (case tensors of
        [] \<Rightarrow> Inl RuntimeError
      | t # ts \<Rightarrow> if \<forall>u \<in> set ts. same_shape t u then Inr (foldl cat2 t ts)
                  else Inl RuntimeError)"

text \<open>
  \<open>torch.split(t, n, dim=-1)\<close> cuts every frame into chunks of \<open>n\<close> features, the last
  chunk taking what is left, and \<open>torch.stack\<close> wants chunks of one shape.
\<close>

definition torch_split :: "tensor \<Rightarrow> nat \<Rightarrow> tensor list" where
  "torch_split t n =
     map (\<lambda>j. map (map (\<lambda>frame. take n (drop (j * n) frame))) t)
       [0..<max 1 ((last_dim t + n - 1) div n)]"

definition torch_stack :: "tensor list \<Rightarrow> py_error + tensor list" where
  "torch_stack tensors =
     (case tensors of
        [] \<Rightarrow> Inl RuntimeError
      | t # ts \<Rightarrow> if \<forall>u \<in> set ts. map (map length) u = map (map length) t
                  then Inr tensors else Inl RuntimeError)"

subsection \<open>Linear layers\<close>

text \<open>
  \<open>torch.nn.Linear(in_features, out_features)\<close>. The values that the constructor draws
  for weight and bias are parameters: \<open>w row column\<close> and \<open>b row\<close>. The layer maps every
  frame \<open>x\<close> to \<open>W x + b\<close> and raises when the frames do not have \<open>in_features\<close> entries.
\<close>

record linear =
  in_features :: nat
  out_features :: nat
  weight :: "real list list"
  bias :: "real list"

definition Linear :: "nat \<Rightarrow> nat \<Rightarrow> (nat \<Rightarrow> nat \<Rightarrow> real) \<Rightarrow> (nat \<Rightarrow> real) \<Rightarrow> linear" where
  "Linear n_in n_out w b =
     \<lparr> in_features = n_in, out_features = n_out,
       weight = map (\<lambda>row. map (w row) [0..<n_in]) [0..<n_out],
       bias = map b [0..<n_out] \<rparr>"

definition affine :: "linear \<Rightarrow> real list \<Rightarrow> real list" where
  "affine l frame =
     map2 (\<lambda>row c. sum_list (map2 (\<lambda>a x. a * x) row frame) + c) (weight l) (bias l)"

definition linear_forward :: "linear \<Rightarrow> tensor \<Rightarrow> py_error + tensor" where
  "linear_forward l x =
     (if has_width (in_features l) x then Inr (map (map (affine l)) x)
      else Inl RuntimeError)"

subsection \<open>The heads and the loop over them\<close>

text \<open>Lines 229 to 231 of the constructor.\<close>

definition hierarchical_classifier ::
  "nat \<Rightarrow> nat \<Rightarrow> nat \<Rightarrow> (nat \<Rightarrow> nat \<Rightarrow> nat \<Rightarrow> real) \<Rightarrow> (nat \<Rightarrow> nat \<Rightarrow> real) \<Rightarrow> linear list" where
  "hierarchical_classifier attention_dimension codebook_dim num_codebooks w b =
     map (\<lambda>head. Linear (attention_dimension + head * codebook_dim) codebook_dim (w head) (b head))
       [0..<num_codebooks]"

text \<open>
  The loop of lines 382 to 388. Besides the two lists of the source the state holds, as
  a ghost value, the list of the tensors that the heads have been applied to.
\<close>

fun classify ::
  "bool \<Rightarrow> linear list \<Rightarrow> nat \<Rightarrow> tensor list \<Rightarrow> tensor list \<Rightarrow> tensor list \<Rightarrow> tensor list \<Rightarrow>
   py_error + (tensor list \<times> tensor list)" where
  "classify is_inference [] head_index gold_frames_per_codebook gold_codec_frames
     predicted_codec_frames head_inputs = Inr (predicted_codec_frames, head_inputs)"
| "classify is_inference (classifier_head # heads) head_index gold_frames_per_codebook
     gold_codec_frames predicted_codec_frames head_inputs =
     (if \<not> is_inference
      then and_then (cat_dim2 gold_codec_frames) (\<lambda>x.
           and_then (linear_forward classifier_head x) (\<lambda>y.
           and_then (getitem gold_frames_per_codebook head_index) (\<lambda>g.
             classify is_inference heads (Suc head_index) gold_frames_per_codebook
               (gold_codec_frames @ [g]) (predicted_codec_frames @ [y]) (head_inputs @ [x]))))
      else and_then (cat_dim2 predicted_codec_frames) (\<lambda>x.
           and_then (linear_forward classifier_head x) (\<lambda>y.
             classify is_inference heads (Suc head_index) gold_frames_per_codebook
               gold_codec_frames (predicted_codec_frames @ [y]) (head_inputs @ [x]))))"

text \<open>
  Lines 374 to 388: the lists are set up and the loop runs. The gold frames are split
  at the constant width 8 of line 378. The result is the list
  \<open>predicted_codec_frames\<close> and the list of the inputs of the heads.
\<close>

definition predict_codebooks ::
  "bool \<Rightarrow> linear list \<Rightarrow> tensor \<Rightarrow> tensor \<Rightarrow> py_error + (tensor list \<times> tensor list)" where
  "predict_codebooks is_inference heads decoded_speech gold_speech =
     (if \<not> is_inference
      then and_then (torch_stack (torch_split gold_speech 8)) (\<lambda>gold_frames_per_codebook.
             classify is_inference heads 0 gold_frames_per_codebook [decoded_speech]
               [decoded_speech] [])
      else classify is_inference heads 0 [] [] [decoded_speech] [])"

section \<open>The codebook decoders of the inference architecture (InferenceToucanTTS.py, lines 268 to 277)\<close>

text \<open>
  The loop over the codebook decoders, the projections and the flows, which are
  Conformers, stacks of layers and Glows from modules that are not part of the sources
  at hand and are parameters here; the reshaping by \<open>view\<close> and \<open>squeeze\<close> is part of
  these parameters. The state holds \<open>codebook_vectors\<close>,
  \<open>postflowed_vectors\<close> and, as a ghost value, the list of the tensors that the codebook
  decoders have been applied to.
\<close>

fun codebook_loop ::
  "(('t \<Rightarrow> 't) \<times> ('t \<Rightarrow> 't) \<times> ('t \<Rightarrow> 't \<Rightarrow> 't)) list \<Rightarrow> 't \<Rightarrow> 't \<Rightarrow>
   't list \<times> 't list \<times> 't list \<Rightarrow> 't list \<times> 't list \<times> 't list" where
  "codebook_loop [] decoded_speech upsampled st = st"
| "codebook_loop ((codebook_decoder, codebook_projector, codebook_flow) # rest)
     decoded_speech upsampled (codebook_vectors, postflowed_vectors, decoder_inputs) =
     (let decoded_codebook = codebook_decoder decoded_speech;
          codebook_vectors = codebook_vectors @ [codebook_projector decoded_codebook];
          postflowed_vectors = postflowed_vectors @ [codebook_flow (last codebook_vectors) upsampled]
      in codebook_loop rest decoded_speech upsampled
           (codebook_vectors, postflowed_vectors, decoder_inputs @ [decoded_speech]))"

text \<open>The tensors that the codebook decoders of a call have been applied to.\<close>

definition decoder_inputs ::
  "(('t \<Rightarrow> 't) \<times> ('t \<Rightarrow> 't) \<times> ('t \<Rightarrow> 't \<Rightarrow> 't)) list \<Rightarrow> 't \<Rightarrow> 't \<Rightarrow> 't list" where
  "decoder_inputs layers decoded_speech upsampled =
     snd (snd (codebook_loop layers decoded_speech upsampled ([], [], [])))"

text \<open>
  Concrete layers, initial values and gold frames for running the heads: weights of one
  and biases of zero, two codebook layers that hand their input on, and gold frames of
  sixteen features.
\<close>

definition demo_layers :: "((tensor \<Rightarrow> tensor) \<times> (tensor \<Rightarrow> tensor) \<times> (tensor \<Rightarrow> tensor \<Rightarrow> tensor)) list" where
  "demo_layers = [(\<lambda>t. t, \<lambda>t. t, \<lambda>t u. t), (\<lambda>t. t, \<lambda>t. t, \<lambda>t u. t)]"

definition ones :: "nat \<Rightarrow> nat \<Rightarrow> nat \<Rightarrow> real" where
  "ones head row column = 1"

definition zeros :: "nat \<Rightarrow> nat \<Rightarrow> real" where
  "zeros head row = 0"

definition demo_gold :: tensor where
  "demo_gold = [[[1, 2, 3, 4, 5, 6, 7, 8, 9, 10, 11, 12, 13, 14, 15, 16]]]"

section \<open>Properties\<close>

subsection \<open>The step target\<close>

lemma div_le_of_less_mult:
  assumes "0 < (c::int)" and "x < c * (k + 1)"
  shows "x div c \<le> k"
proof -
  have "c * (x div c) + x mod c = x" by simp
  moreover have "0 \<le> x mod c" using assms(1) by simp
  ultimately have "c * (x div c) < c * (k + 1)" using assms(2) by linarith
  then have "x div c < k + 1" using assms(1) by (simp add: mult_less_cancel_left_pos)
  then show ?thesis by simp
qed

lemma div_add_multiple:
  assumes "0 < (c::int)" and "0 \<le> r" and "r < c"
  shows "(r + k * c) div c = k"
  using assms by (simp add: div_pos_pos_trivial)

lemma next_boundary_is_next_boundary:
  assumes "0 < c"
  shows "is_next_boundary s c (next_boundary s c)"
proof -
  let ?m = "((s + c - 1) div c) * c"
  have d: "c dvd ?m" by simp
  have ge: "s \<le> ?m"
  proof -
    have "(s + c - 1) = ?m + (s + c - 1) mod c" by simp
    moreover have "(s + c - 1) mod c \<le> c - 1"
      using pos_mod_bound[of c "s + c - 1"] assms by linarith
    ultimately show ?thesis by linarith
  qed
  have least: "?m \<le> m'" if "c dvd m'" "s \<le> m'" for m'
  proof -
    from that(1) obtain k where k: "m' = c * k" by (auto simp: dvd_def)
    have "s + c - 1 < c * (k + 1)" using that(2) k by (simp add: algebra_simps)
    then have "(s + c - 1) div c \<le> k" using assms by (rule div_le_of_less_mult[rotated])
    then have "((s + c - 1) div c) * c \<le> k * c" using assms
      by (simp add: mult_right_mono)
    then show ?thesis using k by (simp add: mult.commute)
  qed
  show ?thesis
    unfolding is_next_boundary_def next_boundary_def using d ge least by blast
qed

lemma adjust_steps_next_boundary:
  assumes "0 < c"
  shows "adjust_steps s c = Inr (next_boundary s c + 1)"
proof (cases "s mod c = 0")
  case True
  then have "c dvd s" by (simp add: dvd_eq_mod_eq_0)
  then obtain k where k: "s = c * k" by (auto simp: dvd_def)
  have eq: "c * k + c - 1 = (c - 1) + k * c" by (simp add: algebra_simps)
  have "(c * k + c - 1) div c = k"
    unfolding eq using assms by (intro div_add_multiple) simp_all
  then have "next_boundary s c = s" using k by (simp add: next_boundary_def mult.commute)
  then show ?thesis using True assms by (simp add: adjust_steps_def)
next
  case False
  define r where "r = s mod c"
  define q where "q = s div c"
  have r: "0 < r" "r < c"
    using False assms pos_mod_sign[of c s] pos_mod_bound[of c s] unfolding r_def by linarith+
  have s: "s = q * c + r" unfolding q_def r_def by simp
  have eq: "s + c - 1 = (r - 1) + (q + 1) * c" using s by (simp add: algebra_simps)
  have "(s + c - 1) div c = q + 1"
    unfolding eq using assms r by (intro div_add_multiple) simp_all
  then have "next_boundary s c = (q + 1) * c" by (simp add: next_boundary_def)
  then have "next_boundary s c + 1 = s + ((c + 1) - r)" using s by (simp add: algebra_simps)
  then show ?thesis using False assms by (simp add: adjust_steps_def r_def)
qed

subsection \<open>The summed loss\<close>

lemma accumulate_PythonFloat:
  "accumulate (PythonFloat a) l = (if isnan l then PythonFloat a else Tensor (fadd a l))"
  by (simp add: accumulate_def)

lemma accumulate_Tensor:
  "accumulate (Tensor a) l = (if isnan l then Tensor a else Tensor (fadd a l))"
  by (simp add: accumulate_def)

lemma loss_value_accumulate:
  "loss_value (accumulate t l) = (if isnan l then loss_value t else fadd (loss_value t) l)"
  by (cases t) (simp_all add: accumulate_def)

lemma is_tensor_accumulate:
  "is_tensor (accumulate t l) \<longleftrightarrow> is_tensor t \<or> \<not> isnan l"
  by (cases t) (simp_all add: accumulate_def)

lemma backward_eq:
  "backward t = (if is_tensor t then Inr (loss_value t) else Inl AttributeError)"
  by (cases t) simp_all

lemma loss_value_sum_losses:
  "loss_value (sum_losses r g d p e) = sum_not_nan [r, g, d, p, e]"
  by (simp add: sum_losses_def sum_not_nan_def loss_value_accumulate)

lemma is_tensor_sum_losses:
  "is_tensor (sum_losses r g d p e) \<longleftrightarrow> (\<exists>l \<in> set [r, g, d, p, e]. \<not> isnan l)"
  by (simp add: sum_losses_def is_tensor_accumulate) blast

text \<open>
  C3, as the code has it. Each of the five component losses that is NaN is left out of
  the summed loss, and each that is not NaN, finite or infinite, is added to it, in the
  order regression, flow, duration, pitch, energy. When at least one of them is not NaN,
  the backward pass runs on that sum.
\<close>

theorem nan_losses_excluded:
  assumes "\<exists>l \<in> set [r, g, d, p, e]. \<not> isnan l"
  shows "backward (sum_losses r g d p e) = Inr (sum_not_nan [r, g, d, p, e])"
  using assms
  by (simp only: backward_eq is_tensor_sum_losses loss_value_sum_losses if_True)

theorem nan_losses_excluded_witness:
  "(\<exists>l \<in> set [Fin 1, NaN, Fin 2, PInf, NaN]. \<not> isnan l) \<and>
   backward (sum_losses (Fin 1) NaN (Fin 2) PInf NaN) = Inr PInf \<and>
   sum_not_nan [Fin 1, NaN, Fin 2, PInf, NaN] = PInf"
  using nan_losses_excluded[of "Fin 1" NaN "Fin 2" PInf NaN]
  by (simp add: sum_not_nan_def isnan_def)

text \<open>
  C3 as the claim words it fails for an infinite loss: with an infinite reconstruction
  loss and the four other losses at 1, the backward pass runs on an infinite sum, not on
  the sum 4 of the finite losses.
\<close>

theorem nan_losses_excluded_counterexample:
  "\<not> isfinite PInf \<and>
   backward (sum_losses PInf (Fin 1) (Fin 1) (Fin 1) (Fin 1)) = Inr PInf \<and>
   foldl fadd (Fin 0) (filter isfinite [PInf, Fin 1, Fin 1, Fin 1, Fin 1]) = Fin 4"
  by (simp add: sum_losses_def accumulate_def isnan_def isfinite_def)

text \<open>
  When all five losses are NaN nothing is added to the Python float \<open>0.0\<close>, and the call
  of \<open>backward\<close> on it raises.
\<close>

lemma all_losses_nan_raises: "backward (sum_losses NaN NaN NaN NaN NaN) = Inl AttributeError"
  by (simp add: sum_losses_def accumulate_def isnan_def)

subsection \<open>The batches of a step\<close>

lemma draw_ok:
  assumes "sources_ok n s" and "loaders_ok n loaders" and "index < n"
  shows "\<exists>batch s'. draw loaders index s = Inr (batch, s') \<and> sources_ok n s' \<and>
           (\<forall>j. j \<noteq> index \<longrightarrow> train_iters s' ! j = train_iters s ! j \<and>
                               restarts s' ! j = restarts s ! j) \<and>
           (if train_iters s ! index = []
            then loaders index (Suc (restarts s ! index)) = batch # train_iters s' ! index \<and>
                 restarts s' ! index = Suc (restarts s ! index)
            else train_iters s ! index = batch # train_iters s' ! index \<and>
                 restarts s' ! index = restarts s ! index)"
proof (cases "train_iters s ! index")
  case Nil
  from assms(2,3) have "loaders index (Suc (restarts s ! index)) \<noteq> []"
    by (simp add: loaders_ok_def)
  then obtain b rest where "loaders index (Suc (restarts s ! index)) = b # rest"
    by (cases "loaders index (Suc (restarts s ! index))") auto
  with Nil assms(1,3) show ?thesis
    by (simp add: draw_def sources_ok_def)
next
  case (Cons b rest)
  with assms(1,3) show ?thesis
    by (simp add: draw_def sources_ok_def)
qed

lemma draw_all_append:
  assumes "draw_all loaders xs s = Inr (bs1, s1)" and "draw_all loaders ys s1 = Inr (bs2, s2)"
  shows "draw_all loaders (xs @ ys) s = Inr (bs1 @ bs2, s2)"
  using assms
  by (induction xs arbitrary: s bs1) (auto split: sum.splits prod.splits)

lemma pass_ok:
  assumes "sources_ok n s" and "loaders_ok n loaders" and "set order \<subseteq> {0..<n}"
  shows "\<exists>s' batches'. pass loaders batch_size order (s, batches, drawn) =
             Inr (s', batches', drawn @ take (batch_size - length batches) order) \<and>
           sources_ok n s' \<and>
           length batches' = length batches + min (batch_size - length batches) (length order) \<and>
           (\<exists>new. batches' = batches @ new \<and>
              draw_all loaders (take (batch_size - length batches) order) s = Inr (new, s'))"
  using assms
proof (induction order arbitrary: s batches drawn)
  case Nil
  then show ?case by simp
next
  case (Cons index order)
  show ?case
  proof (cases "length batches < batch_size")
    case True
    from Cons.prems have "index < n" by simp
    from draw_ok[OF Cons.prems(1,2) this] obtain batch s1 where
      d: "draw loaders index s = Inr (batch, s1)" and ok: "sources_ok n s1" by blast
    from Cons.prems have sub: "set order \<subseteq> {0..<n}" by simp
    from Cons.IH[OF ok Cons.prems(2) sub, of "batches @ [batch]" "drawn @ [index]"]
    obtain s' batches' new where
      p: "pass loaders batch_size order (s1, batches @ [batch], drawn @ [index]) =
            Inr (s', batches', (drawn @ [index]) @ take (batch_size - length (batches @ [batch])) order)"
      and ok': "sources_ok n s'"
      and len: "length batches' = length (batches @ [batch]) +
                  min (batch_size - length (batches @ [batch])) (length order)"
      and new: "batches' = (batches @ [batch]) @ new"
        "draw_all loaders (take (batch_size - length (batches @ [batch])) order) s1 = Inr (new, s')"
      by blast
    from True obtain m where m: "batch_size - length batches = Suc m"
      by (cases "batch_size - length batches") auto
    then have m': "batch_size - length (batches @ [batch]) = m" by simp
    show ?thesis
      using True d p ok' len m m' new by simp
  next
    case False
    then have z: "batch_size - length batches = 0" by simp
    from Cons.prems have sub: "set order \<subseteq> {0..<n}" by simp
    from Cons.IH[OF Cons.prems(1,2) sub, of batches drawn] z False
    show ?thesis by simp
  qed
qed


lemma length_concat_samples:
  assumes "\<And>k. length (sample k) = n"
  shows "length (concat (map sample [a..<a + j])) = j * n"
  by (induction j) (simp_all add: assms)

lemma take_concat_samples:
  assumes "\<And>k. length (sample k) = n" and "0 < n" and "m \<le> j"
  shows "take m (concat (map sample [a..<a + j])) = task_order sample a m"
proof -
  from assms(3) obtain i where j: "j = m + i" by (auto simp: le_iff_add)
  have "[a..<a + (m + i)] = [a..<a + m] @ [a + m..<a + m + i]"
    by (metis add.assoc le_add1 upt_add_eq_append)
  then have "concat (map sample [a..<a + j]) =
      concat (map sample [a..<a + m]) @ concat (map sample [a + m..<a + m + i])"
    using j by simp
  moreover have "m \<le> length (concat (map sample [a..<a + m]))"
    using length_concat_samples[of sample n a m, OF assms(1)] assms(2) by simp
  ultimately show ?thesis by (simp add: task_order_def)
qed

lemma task_order_step:
  assumes "\<And>k. length (sample k) = n" and "0 < n" and "0 < m"
  shows "task_order sample k m = take m (sample k) @ task_order sample (Suc k) (m - n)"
proof -
  from assms(3) obtain m' where m: "m = Suc m'" by (cases m) auto
  have "[k..<k + m] = k # [Suc k..<Suc k + m']" using m by (simp add: upt_rec)
  then have "task_order sample k m = take m (sample k @ concat (map sample [Suc k..<Suc k + m']))"
    by (simp add: task_order_def)
  also have "\<dots> = take m (sample k) @ take (m - n) (concat (map sample [Suc k..<Suc k + m']))"
    by (simp add: assms(1))
  also have "take (m - n) (concat (map sample [Suc k..<Suc k + m'])) = task_order sample (Suc k) (m - n)"
    using assms(2) m by (intro take_concat_samples[OF assms(1,2)]) simp
  finally show ?thesis .
qed

lemma gather_ok:
  assumes "0 < n" and "loaders_ok n loaders" and "sample_ok n sample" and "sources_ok n s"
  shows "\<exists>s' batches'. gather loaders sample batch_size k (s, batches, drawn) =
             Some (Inr (s', batches',
                        drawn @ task_order sample k (batch_size - length batches))) \<and>
           sources_ok n s' \<and> length batches' = max batch_size (length batches) \<and>
           (\<exists>new. batches' = batches @ new \<and>
              draw_all loaders (task_order sample k (batch_size - length batches)) s =
                Inr (new, s'))"
  using assms(4)
proof (induction "batch_size - length batches" arbitrary: k s batches drawn rule: less_induct)
  case less
  have len: "length (sample j) = n" for j
    using assms(3) by (metis sample_ok_def distinct_card card_atLeastLessThan diff_zero)
  show ?case
  proof (cases "length batches < batch_size")
    case False
    then show ?thesis
      using less.prems by (subst gather.simps) (simp add: task_order_def)
  next
    case True
    have sub: "set (sample k) \<subseteq> {0..<n}" using assms(3) by (simp add: sample_ok_def)
    from pass_ok[OF less.prems assms(2) sub, of batch_size batches drawn]
    obtain s1 batches1 new1 where
      p: "pass loaders batch_size (sample k) (s, batches, drawn) =
            Inr (s1, batches1, drawn @ take (batch_size - length batches) (sample k))"
      and ok1: "sources_ok n s1"
      and l1: "length batches1 = length batches + min (batch_size - length batches) n"
      and new1: "batches1 = batches @ new1"
        "draw_all loaders (take (batch_size - length batches) (sample k)) s = Inr (new1, s1)"
      by (auto simp: len)
    have dec: "batch_size - length batches1 < batch_size - length batches"
      using True l1 assms(1) by simp
    from less.hyps[OF dec ok1, of "Suc k" "drawn @ take (batch_size - length batches) (sample k)"]
    obtain s' batches' new2 where
      g: "gather loaders sample batch_size (Suc k)
            (s1, batches1, drawn @ take (batch_size - length batches) (sample k)) =
          Some (Inr (s', batches',
             (drawn @ take (batch_size - length batches) (sample k)) @
             task_order sample (Suc k) (batch_size - length batches1)))"
      and ok': "sources_ok n s'"
      and l': "length batches' = max batch_size (length batches1)"
      and new2: "batches' = batches1 @ new2"
        "draw_all loaders (task_order sample (Suc k) (batch_size - length batches1)) s1 =
           Inr (new2, s')"
      by blast
    have rest: "batch_size - length batches1 = (batch_size - length batches) - n"
      using l1 by simp
    have ord: "task_order sample k (batch_size - length batches) =
        take (batch_size - length batches) (sample k) @
        task_order sample (Suc k) (batch_size - length batches1)"
      unfolding rest using True by (intro task_order_step[OF len assms(1)]) simp
    have "gather loaders sample batch_size k (s, batches, drawn) =
          gather loaders sample batch_size (Suc k)
            (s1, batches1, drawn @ take (batch_size - length batches) (sample k))"
      using True p by (subst gather.simps) simp
    moreover have "max batch_size (length batches1) = max batch_size (length batches)"
      using True l1 by simp
    moreover have "draw_all loaders (task_order sample k (batch_size - length batches)) s =
        Inr (new1 @ new2, s')"
      unfolding ord using new1(2) new2(2) by (rule draw_all_append)
    moreover have "batches' = batches @ (new1 @ new2)" using new1(1) new2(1) by simp
    ultimately show ?thesis using g ok' l' ord by simp
  qed
qed


lemma task_order_full:
  assumes "\<And>k. length (sample k) = n" and "0 < n"
  shows "task_order sample k n = sample k"
  using task_order_step[OF assms assms(2), where k=k] assms(1)[of k]
  by (simp add: task_order_def)

text \<open>
  C2, as the code has it. Let there be \<open>n > 0\<close> tasks with data loaders that are not
  empty. A step draws exactly \<open>batch_size\<close> batches, one after the other, in passes over
  the tasks: each pass visits the tasks in a freshly sampled order and draws one batch
  from each task it visits, and the last pass stops when \<open>batch_size\<close> batches are there.
  When \<open>batch_size\<close> is the number of tasks there is one pass, which draws exactly one
  batch from each task. A draw from a task whose iterator is exhausted creates the
  iterator of that task anew and takes its first batch; a draw never touches the
  iterator of another task.
\<close>

theorem batches_of_a_step:
  assumes "0 < n" and "loaders_ok n loaders" and "sample_ok n sample" and "sources_ok n s"
  shows "(\<exists>s' batches.
            gather loaders sample batch_size k (s, [], []) =
              Some (Inr (s', batches, task_order sample k batch_size)) \<and>
            length batches = batch_size \<and>
            draw_all loaders (task_order sample k batch_size) s = Inr (batches, s')) \<and>
         (batch_size = n \<longrightarrow>
            task_order sample k batch_size = sample k \<and>
            distinct (sample k) \<and> set (sample k) = {0..<n}) \<and>
         (\<forall>index < n. \<exists>batch s'.
            draw loaders index s = Inr (batch, s') \<and>
            (\<forall>j. j \<noteq> index \<longrightarrow> train_iters s' ! j = train_iters s ! j \<and>
                                restarts s' ! j = restarts s ! j) \<and>
            (if train_iters s ! index = []
             then loaders index (Suc (restarts s ! index)) = batch # train_iters s' ! index \<and>
                  restarts s' ! index = Suc (restarts s ! index)
             else train_iters s ! index = batch # train_iters s' ! index \<and>
                  restarts s' ! index = restarts s ! index))"
proof -
  have len: "length (sample j) = n" for j
    using assms(3) by (metis sample_ok_def distinct_card card_atLeastLessThan diff_zero)
  from gather_ok[OF assms, where batch_size=batch_size and k=k and batches="[]" and drawn="[]"]
  have 1: "\<exists>s' batches.
            gather loaders sample batch_size k (s, [], []) =
              Some (Inr (s', batches, task_order sample k batch_size)) \<and>
            length batches = batch_size \<and>
            draw_all loaders (task_order sample k batch_size) s = Inr (batches, s')"
    by auto
  have 2: "batch_size = n \<longrightarrow>
            task_order sample k batch_size = sample k \<and>
            distinct (sample k) \<and> set (sample k) = {0..<n}"
    using task_order_full[OF len assms(1), where k=k] assms(3) by (simp add: sample_ok_def)
  have 3: "\<forall>index < n. \<exists>batch s'.
            draw loaders index s = Inr (batch, s') \<and>
            (\<forall>j. j \<noteq> index \<longrightarrow> train_iters s' ! j = train_iters s ! j \<and>
                                restarts s' ! j = restarts s ! j) \<and>
            (if train_iters s ! index = []
             then loaders index (Suc (restarts s ! index)) = batch # train_iters s' ! index \<and>
                  restarts s' ! index = Suc (restarts s ! index)
             else train_iters s ! index = batch # train_iters s' ! index \<and>
                  restarts s' ! index = restarts s ! index)"
    using draw_ok[OF assms(4,2)] by blast
  from 1 2 3 show ?thesis by blast
qed

lemma demo_ok:
  "loaders_ok 2 demo_loaders" "sample_ok 2 demo_sample" "sources_ok 2 demo_sources"
  by (auto simp: loaders_ok_def sample_ok_def sources_ok_def demo_loaders_def demo_sample_def
      demo_sources_def)

theorem batches_of_a_step_witness:
  "0 < (2::nat) \<and> loaders_ok 2 demo_loaders \<and> sample_ok 2 demo_sample \<and>
   sources_ok 2 demo_sources \<and>
   (\<exists>s' batches.
      gather demo_loaders demo_sample 2 0 (demo_sources, [], []) =
        Some (Inr (s', batches, [1, 0])) \<and> length batches = 2)"
  using batches_of_a_step[OF _ demo_ok, where batch_size = 2 and k = 0] demo_ok
  by (auto simp: demo_sample_def)

text \<open>
  C2 as the claim words it fails when \<open>batch_size\<close> is not the number of tasks. With two
  tasks, a step with \<open>batch_size = 3\<close> draws from task 1, from task 0 and from task 0
  again, and a step with \<open>batch_size = 1\<close> draws from task 1 only.
\<close>

theorem batches_of_a_step_counterexample:
  "gather demo_loaders demo_sample 3 0 (demo_sources, [], []) =
     Some (Inr (\<lparr> train_iters = [[2], [12]], restarts = [1, 1] \<rparr>, [11, 2, 1], [1, 0, 0])) \<and>
   gather demo_loaders demo_sample 1 0 (demo_sources, [], []) =
     Some (Inr (\<lparr> train_iters = [[2], [12]], restarts = [0, 1] \<rparr>, [11], [1]))"
  by (simp add: gather.simps draw_def demo_loaders_def demo_sample_def demo_sources_def)

subsection \<open>The passes of the loop\<close>

lemma training_pass_ok:
  assumes "passes_complete C n" and "sources_ok n (data_sources t)"
  shows "\<exists>w opt sch src.
           training_pass C batch_size step_counter t = Some (Inr (w, opt, sch, src)) \<and>
           sources_ok n src"
proof -
  from assms(1) have n: "0 < n" and lo: "loaders_ok n (train_loaders C)"
    and sa: "sample_ok n (random_sample C step_counter)" and fo: "forward_ok C"
    by (simp_all add: passes_complete_def)
  from gather_ok[OF n lo sa assms(2), where batch_size = batch_size and k = 0
      and batches = "[]" and drawn = "[]"]
  obtain src batches drawn where
    g: "gather (train_loaders C) (random_sample C step_counter) batch_size 0
          (data_sources t, [], []) = Some (Inr (src, batches, drawn))"
    and ok: "sources_ok n src"
    by blast
  from fo obtain r g' d p e where
    f: "forward C (net t) batches = Inr (r, g', d, p, e)"
    and nn: "\<not> (isnan r \<and> isnan g' \<and> isnan d \<and> isnan p \<and> isnan e)"
    unfolding forward_ok_def by blast
  have "is_tensor (sum_losses r g' d p e)"
    using nn by (simp add: is_tensor_sum_losses)
  then have b: "backward (sum_losses r g' d p e) = Inr (loss_value (sum_losses r g' d p e))"
    by (simp add: backward_eq)
  obtain w opt sch where
    o: "optimizer_step C (net t) (optimizer t) (scheduler t) batches
          (loss_value (sum_losses r g' d p e)) = (w, opt, sch)"
    by (cases "optimizer_step C (net t) (optimizer t) (scheduler t) batches
          (loss_value (sum_losses r g' d p e))") auto
  have "training_pass C batch_size step_counter t = Some (Inr (w, opt, sch, src))"
    using g f b o by (simp add: training_pass_def)
  then show ?thesis using ok by blast
qed

lemma train_iteration_result:
  assumes "training_pass C batch_size step_counter t = Some (Inr (w, opt, sch, src))"
  shows "\<exists>t'. train_iteration C steps c batch_size step_counter t = Some (Inr t') \<and>
              executed t' = executed t @ [step_counter] \<and> data_sources t' = src \<and>
              net_config t' = net_config t"
  using assms by (simp add: train_iteration_def Let_def)

lemma train_iteration_returns:
  assumes "train_iteration C steps c batch_size step_counter t = Some (Inr t')"
  shows "executed t' = executed t @ [step_counter] \<and> net_config t' = net_config t"
proof -
  from assms obtain w opt sch src where
    "training_pass C batch_size step_counter t = Some (Inr (w, opt, sch, src))"
    by (auto simp: train_iteration_def split: option.splits sum.splits)
  from train_iteration_result[OF this, of steps c] assms show ?thesis by auto
qed

lemma run_steps_returns:
  assumes "run_steps C steps c batch_size xs t = Some (Inr t')"
  shows "executed t' = executed t @ xs \<and> net_config t' = net_config t"
  using assms
proof (induction xs arbitrary: t)
  case Nil
  then show ?case by simp
next
  case (Cons x xs)
  from Cons.prems obtain t1 where
    i: "train_iteration C steps c batch_size x t = Some (Inr t1)"
    and r: "run_steps C steps c batch_size xs t1 = Some (Inr t')"
    by (auto split: option.splits sum.splits)
  from train_iteration_returns[OF i] Cons.IH[OF r] show ?case by simp
qed

lemma run_steps_ok:
  assumes "passes_complete C n" and "sources_ok n (data_sources t)"
  shows "\<exists>t'. run_steps C steps c batch_size xs t = Some (Inr t')"
  using assms(2)
proof (induction xs arbitrary: t)
  case Nil
  then show ?case by simp
next
  case (Cons x xs)
  from training_pass_ok[OF assms(1) Cons.prems, of batch_size x] obtain w opt sch src where
    p: "training_pass C batch_size x t = Some (Inr (w, opt, sch, src))"
    and ok: "sources_ok n src" by blast
  from train_iteration_result[OF p, of steps c] obtain t1 where
    i: "train_iteration C steps c batch_size x t = Some (Inr t1)"
    and s: "data_sources t1 = src" by blast
  from Cons.IH[of t1] ok s obtain t' where
    "run_steps C steps c batch_size xs t1 = Some (Inr t')" by auto
  then show ?case using i by simp
qed

lemma train_setup_fresh:
  assumes "0 < arg_steps_per_checkpoint a" and "arg_path_to_checkpoint a = None"
    and "\<not> arg_resume a"
  shows "\<exists>t. train_setup C a =
               Inr (next_boundary (arg_steps a) (arg_steps_per_checkpoint a) + 1, t, 0, False) \<and>
             executed t = [] \<and> sources_ok (arg_datasets a) (data_sources t)"
  using assms
  by (simp add: train_setup_def adjust_steps_next_boundary restore_def sources_ok_def)

lemma length_py_range: "length (py_range a b) = nat (b - a)"
  by (simp add: py_range_def)


lemma demo_forward_ok: "forward_ok demo"
  by (simp add: forward_ok_def demo_def isnan_def)

lemma demo_loaders_ok: "loaders_ok 2 (train_loaders demo)"
  by (simp add: loaders_ok_def demo_def demo_loaders_def)

lemma demo_sample_ok: "sample_ok 2 (random_sample demo step_counter)"
  by (auto simp: sample_ok_def demo_def demo_sample_def)

lemma demo_passes_complete: "passes_complete demo 2"
  using demo_forward_ok demo_loaders_ok demo_sample_ok
  by (simp add: passes_complete_def)

subsection \<open>How many iterations a fresh run makes\<close>

lemma demo_args_simps:
  "arg_steps (demo_args s c) = s" "arg_steps_per_checkpoint (demo_args s c) = c"
  "arg_path_to_checkpoint (demo_args s c) = None" "arg_resume (demo_args s c) = False"
  "arg_datasets (demo_args s c) = 2" "arg_batch_size (demo_args s c) = 2"
  "arg_fine_tune (demo_args s c) = False" "arg_save_directory (demo_args s c) = []"
  "arg_net (demo_args s c) = 0" "arg_model (demo_args s c) = ToucanTTS_init Map.empty"
  by (simp_all add: demo_args_def)

lemma train_loop_fresh:
  assumes "0 < arg_steps_per_checkpoint a" and "arg_path_to_checkpoint a = None"
    and "\<not> arg_resume a"
  shows "\<exists>t0. executed t0 = [] \<and> sources_ok (arg_datasets a) (data_sources t0) \<and>
           train_loop C a =
             run_steps C (next_boundary (arg_steps a) (arg_steps_per_checkpoint a) + 1)
               (arg_steps_per_checkpoint a) (arg_batch_size a)
               (py_range 0 (next_boundary (arg_steps a) (arg_steps_per_checkpoint a) + 1)) t0"
proof -
  from train_setup_fresh[OF assms, of C] obtain t0 where
    s: "train_setup C a =
          Inr (next_boundary (arg_steps a) (arg_steps_per_checkpoint a) + 1, t0, 0, False)"
    and e: "executed t0 = []"
    and ok: "sources_ok (arg_datasets a) (data_sources t0)" by blast
  have "train_loop C a =
      run_steps C (next_boundary (arg_steps a) (arg_steps_per_checkpoint a) + 1)
        (arg_steps_per_checkpoint a) (arg_batch_size a)
        (py_range 0 (next_boundary (arg_steps a) (arg_steps_per_checkpoint a) + 1)) t0"
    using s by (simp add: train_loop_def)
  with e ok show ?thesis by blast
qed

lemma train_loop_fresh_returns:
  assumes "0 < arg_steps_per_checkpoint a" and "arg_path_to_checkpoint a = None"
    and "\<not> arg_resume a" and "train_loop C a = Some (Inr t)"
  shows "executed t = py_range 0 (next_boundary (arg_steps a) (arg_steps_per_checkpoint a) + 1)"
proof -
  from train_loop_fresh[OF assms(1,2,3), of C] obtain t0 where
    e: "executed t0 = []"
    and l: "train_loop C a =
             run_steps C (next_boundary (arg_steps a) (arg_steps_per_checkpoint a) + 1)
               (arg_steps_per_checkpoint a) (arg_batch_size a)
               (py_range 0 (next_boundary (arg_steps a) (arg_steps_per_checkpoint a) + 1)) t0"
    by blast
  from run_steps_returns[OF assms(4)[unfolded l]] e show ?thesis by simp
qed

lemma train_loop_fresh_completes:
  assumes "0 < arg_steps_per_checkpoint a" and "arg_path_to_checkpoint a = None"
    and "\<not> arg_resume a" and "passes_complete C (arg_datasets a)"
  shows "\<exists>t. train_loop C a = Some (Inr t)"
proof -
  from train_loop_fresh[OF assms(1,2,3), of C] obtain t0 where
    ok: "sources_ok (arg_datasets a) (data_sources t0)"
    and l: "train_loop C a =
             run_steps C (next_boundary (arg_steps a) (arg_steps_per_checkpoint a) + 1)
               (arg_steps_per_checkpoint a) (arg_batch_size a)
               (py_range 0 (next_boundary (arg_steps a) (arg_steps_per_checkpoint a) + 1)) t0"
    by blast
  from run_steps_ok[OF assms(4) ok] show ?thesis unfolding l by blast
qed

lemma steps_executed_Inr:
  "steps_executed r = Some (Inr m) \<longleftrightarrow> (\<exists>t. r = Some (Inr t) \<and> m = length (executed t))"
  by (auto simp: steps_executed_def split: option.splits sum.splits)

text \<open>
  C6, as the code has it. For a step target \<open>steps \<ge> 0\<close> and a checkpoint interval
  \<open>steps_per_checkpoint > 0\<close>, a fresh run (no checkpoint given, no resume) in which every
  pass completes (there is at least one task, no data loader is empty, every sampled
  order is a permutation of the task indices, and the forward pass returns five losses
  that are not all NaN) returns after one iteration more than the smallest multiple of
  \<open>steps_per_checkpoint\<close> that is not below \<open>steps\<close>: the step counter runs from 0 up to
  that multiple, both included. Whatever the passes do, a fresh run that returns has made
  that number of iterations.
\<close>

theorem fresh_run_iterations:
  assumes "0 < arg_steps_per_checkpoint a" and "0 \<le> arg_steps a"
    and "arg_path_to_checkpoint a = None" and "\<not> arg_resume a"
  shows "is_next_boundary (arg_steps a) (arg_steps_per_checkpoint a)
           (next_boundary (arg_steps a) (arg_steps_per_checkpoint a)) \<and>
         (passes_complete C (arg_datasets a) \<longrightarrow>
            steps_executed (train_loop C a) =
              Some (Inr (nat (next_boundary (arg_steps a) (arg_steps_per_checkpoint a)) + 1))) \<and>
         (\<forall>m. steps_executed (train_loop C a) = Some (Inr m) \<longrightarrow>
            m = nat (next_boundary (arg_steps a) (arg_steps_per_checkpoint a)) + 1)"
proof -
  let ?b = "next_boundary (arg_steps a) (arg_steps_per_checkpoint a)"
  have nb: "is_next_boundary (arg_steps a) (arg_steps_per_checkpoint a) ?b"
    using assms(1) by (rule next_boundary_is_next_boundary)
  then have b0: "0 \<le> ?b" using assms(2) by (simp add: is_next_boundary_def)
  have len: "length (py_range 0 (?b + 1)) = nat ?b + 1"
    using b0 by (simp add: length_py_range nat_add_distrib)
  have returns: "m = nat ?b + 1" if "steps_executed (train_loop C a) = Some (Inr m)" for m
  proof -
    from that obtain t where r: "train_loop C a = Some (Inr t)" and m: "m = length (executed t)"
      unfolding steps_executed_Inr by blast
    from train_loop_fresh_returns[OF assms(1,3,4) r] m len show ?thesis by simp
  qed
  have complete: "steps_executed (train_loop C a) = Some (Inr (nat ?b + 1))"
    if "passes_complete C (arg_datasets a)"
  proof -
    from train_loop_fresh_completes[OF assms(1,3,4) that] obtain t where
      r: "train_loop C a = Some (Inr t)" by blast
    then have "steps_executed (train_loop C a) = Some (Inr (length (executed t)))"
      by (simp add: steps_executed_def)
    with returns show ?thesis by simp
  qed
  from nb returns complete show ?thesis by blast
qed

theorem fresh_run_iterations_witness:
  "next_boundary 7 3 = 9 \<and> is_next_boundary 7 3 9 \<and> passes_complete demo 2 \<and>
   steps_executed (train_loop demo (demo_args 7 3)) = Some (Inr 10)"
proof -
  have n: "next_boundary 7 3 = 9" by (simp add: next_boundary_def)
  have h: "0 < arg_steps_per_checkpoint (demo_args 7 3)" "0 \<le> arg_steps (demo_args 7 3)"
    "arg_path_to_checkpoint (demo_args 7 3) = None" "\<not> arg_resume (demo_args 7 3)"
    by (simp_all add: demo_args_simps)
  note r = fresh_run_iterations[OF h, of demo, unfolded demo_args_simps n]
  from r have 1: "is_next_boundary 7 3 9" by (rule conjunct1)
  from r have "passes_complete demo 2 \<longrightarrow>
      steps_executed (train_loop demo (demo_args 7 3)) = Some (Inr (nat 9 + 1))"
    by (rule conjunct1[OF conjunct2])
  with demo_passes_complete
  have 2: "steps_executed (train_loop demo (demo_args 7 3)) = Some (Inr (nat 9 + 1))"
    by (rule rev_mp)
  have 3: "nat 9 + 1 = (10::nat)" by simp
  from n 1 demo_passes_complete 2[unfolded 3] show ?thesis by (intro conjI)
qed

text \<open>
  C6 as the claim words it fails: with a step target of 10 and a checkpoint every 5
  steps, the smallest multiple of 5 not below 10 is 10, and the loop, every pass of which
  completes, makes 11 iterations.
\<close>

theorem fresh_run_iterations_counterexample:
  "is_next_boundary 10 5 10 \<and> passes_complete demo 2 \<and>
   steps_executed (train_loop demo (demo_args 10 5)) = Some (Inr 11)"
proof -
  have n: "next_boundary 10 5 = 10" by (simp add: next_boundary_def)
  have h: "0 < arg_steps_per_checkpoint (demo_args 10 5)"
    "arg_path_to_checkpoint (demo_args 10 5) = None" "\<not> arg_resume (demo_args 10 5)"
    by (simp_all add: demo_args_simps)
  have "is_next_boundary 10 5 (next_boundary 10 5)"
    by (rule next_boundary_is_next_boundary) simp
  then have 1: "is_next_boundary 10 5 10" unfolding n .
  have p: "passes_complete demo (arg_datasets (demo_args 10 5))"
    using demo_passes_complete by (simp add: demo_args_simps)
  from train_loop_fresh_completes[OF h p] obtain t where
    r: "train_loop demo (demo_args 10 5) = Some (Inr t)" by blast
  from train_loop_fresh_returns[OF h r]
  have "executed t = py_range 0 11" by (simp add: demo_args_simps n)
  then have "length (executed t) = 11" by (simp add: length_py_range)
  with r have 2: "steps_executed (train_loop demo (demo_args 10 5)) = Some (Inr 11)"
    by (simp add: steps_executed_def)
  from 1 demo_passes_complete 2 show ?thesis by (intro conjI)
qed

subsection \<open>What an iteration leaves behind\<close>

lemma final_fifth_iff:
  "real_of_int sc > real_of_int (steps * 4) / 5 \<longleftrightarrow> 4 * steps < 5 * sc"
proof -
  have "real_of_int (steps * 4) / 5 < real_of_int sc \<longleftrightarrow>
        real_of_int (steps * 4) < real_of_int sc * 5"
    by (simp add: pos_divide_less_eq)
  also have "\<dots> \<longleftrightarrow> real_of_int (4 * steps) < real_of_int (5 * sc)"
    by (simp add: mult.commute)
  also have "\<dots> \<longleftrightarrow> 4 * steps < 5 * sc"
    by (simp only: of_int_less_iff)
  finally show ?thesis by simp
qed

text \<open>An iteration that is no checkpoint boundary: the pass and nothing else.\<close>

lemma train_iteration_plain:
  assumes "training_pass C batch_size step_counter t = Some (Inr (w, opt, sch, src))"
    and "\<not> (step_counter mod steps_per_checkpoint = 0 \<and> step_counter \<noteq> 0)"
  shows "train_iteration C steps steps_per_checkpoint batch_size step_counter t =
           Some (Inr (t\<lparr>net := w, optimizer := opt, scheduler := sch, data_sources := src,
                        executed := executed t @ [step_counter]\<rparr>))"
proof -
  from assms(2) have "(step_counter mod steps_per_checkpoint = 0 \<and> step_counter \<noteq> 0) = False"
    by simp
  then show ?thesis using assms(1) by (simp only: train_iteration_def Let_def) simp
qed

text \<open>A checkpoint boundary outside the final fifth: the checkpoint is written.\<close>

lemma train_iteration_checkpoint:
  assumes "training_pass C batch_size step_counter t = Some (Inr (w, opt, sch, src))"
    and "step_counter mod steps_per_checkpoint = 0" and "step_counter \<noteq> 0"
    and "\<not> 4 * steps < 5 * step_counter"
  shows "train_iteration C steps steps_per_checkpoint batch_size step_counter t =
           Some (Inr (t\<lparr>net := w, optimizer := opt, scheduler := sch, data_sources := src,
                        executed := executed t @ [step_counter],
                        checkpoint_files :=
                          delete_old_checkpoints C
                            (checkpoint_files t @
                             [\<lparr> ck_model = w, ck_optimizer = opt, ck_scheduler = sch,
                                ck_step_counter = step_counter, ck_config = net_config t \<rparr>]) 5\<rparr>))"
  using assms by (simp add: train_iteration_def checkpoint_dict_def final_fifth_iff Let_def)

text \<open>A checkpoint boundary in the final fifth: the checkpoint is written and averaged.\<close>

lemma train_iteration_average:
  assumes "training_pass C batch_size step_counter t = Some (Inr (w, opt, sch, src))"
    and "step_counter mod steps_per_checkpoint = 0" and "step_counter \<noteq> 0"
    and "4 * steps < 5 * step_counter"
    and "files = delete_old_checkpoints C
           (checkpoint_files t @
            [\<lparr> ck_model = w, ck_optimizer = opt, ck_scheduler = sch,
               ck_step_counter = step_counter, ck_config = net_config t \<rparr>]) 5"
  shows "train_iteration C steps steps_per_checkpoint batch_size step_counter t =
           Some (Inr (t\<lparr>net := save_model_for_use C
                                (average_checkpoints C (get_n_recent_checkpoints_paths C files 2)),
                        optimizer := opt, scheduler := sch, data_sources := src,
                        executed := executed t @ [step_counter],
                        checkpoint_files := files,
                        best_file := Some (save_model_for_use C
                                (average_checkpoints C (get_n_recent_checkpoints_paths C files 2)))\<rparr>))"
  using assms by (simp add: train_iteration_def checkpoint_dict_def final_fifth_iff Let_def)

text \<open>An iteration whose pass raises or never ends does the same, and writes nothing.\<close>

lemma train_iteration_raises:
  "training_pass C batch_size step_counter t = Some (Inl e) \<Longrightarrow>
   train_iteration C steps steps_per_checkpoint batch_size step_counter t = Some (Inl e)"
  by (simp add: train_iteration_def)

lemma train_iteration_diverges:
  "training_pass C batch_size step_counter t = None \<Longrightarrow>
   train_iteration C steps steps_per_checkpoint batch_size step_counter t = None"
  by (simp add: train_iteration_def)

text \<open>
  When the forward pass returns five losses that are all NaN, nothing is added to the
  Python float and the iteration raises at the call of \<open>backward\<close>.
\<close>

lemma train_iteration_all_nan:
  assumes "gather (train_loaders C) (random_sample C step_counter) batch_size 0
             (data_sources t, [], []) = Some (Inr (src, batches, drawn))"
    and "forward C (net t) batches = Inr (NaN, NaN, NaN, NaN, NaN)"
  shows "train_iteration C steps steps_per_checkpoint batch_size step_counter t =
           Some (Inl AttributeError)"
  using assms
  by (simp add: train_iteration_def training_pass_def all_losses_nan_raises)

text \<open>
  Without the condition on the forward pass the loop need not return: when every forward
  pass gives five losses that are all NaN, the first iteration of a fresh run raises at
  the call of \<open>backward\<close>, and so does the loop.
\<close>

lemma fresh_run_all_nan_raises:
  assumes "0 < arg_steps_per_checkpoint a" and "0 \<le> arg_steps a"
    and "arg_path_to_checkpoint a = None" and "\<not> arg_resume a"
    and "0 < arg_datasets a" and "loaders_ok (arg_datasets a) (train_loaders C)"
    and "sample_ok (arg_datasets a) (random_sample C 0)"
    and "\<forall>w batches. forward C w batches = Inr (NaN, NaN, NaN, NaN, NaN)"
  shows "train_loop C a = Some (Inl AttributeError)"
proof -
  let ?b = "next_boundary (arg_steps a) (arg_steps_per_checkpoint a)"
  have "is_next_boundary (arg_steps a) (arg_steps_per_checkpoint a) ?b"
    using assms(1) by (rule next_boundary_is_next_boundary)
  then have b0: "0 \<le> ?b" using assms(2) by (simp add: is_next_boundary_def)
  then have r: "py_range 0 (?b + 1) = 0 # py_range 1 (?b + 1)"
    by (simp add: py_range_def upto_rec1)
  from train_loop_fresh[OF assms(1,3,4), of C] obtain t0 where
    ok: "sources_ok (arg_datasets a) (data_sources t0)"
    and l: "train_loop C a =
             run_steps C (?b + 1) (arg_steps_per_checkpoint a) (arg_batch_size a)
               (py_range 0 (?b + 1)) t0"
    by blast
  from gather_ok[OF assms(5,6,7) ok, where batch_size = "arg_batch_size a" and k = 0
      and batches = "[]" and drawn = "[]"]
  obtain src batches drawn where
    g: "gather (train_loaders C) (random_sample C 0) (arg_batch_size a) 0
          (data_sources t0, [], []) = Some (Inr (src, batches, drawn))"
    by blast
  from assms(8) have f: "forward C (net t0) batches = Inr (NaN, NaN, NaN, NaN, NaN)" by simp
  have "train_iteration C (?b + 1) (arg_steps_per_checkpoint a) (arg_batch_size a) 0 t0 =
          Some (Inl AttributeError)"
    using g f by (rule train_iteration_all_nan)
  then show ?thesis unfolding l r by simp
qed

text \<open>The pass of the concrete collaborators from a concrete state.\<close>

lemma demo_gather:
  "gather demo_loaders demo_sample 2 0 (\<lparr> train_iters = [[2], []], restarts = [0, 0] \<rparr>, [], []) =
     Some (Inr (\<lparr> train_iters = [[], [12]], restarts = [0, 1] \<rparr>, [11, 2], [1, 0]))"
  by (simp add: gather.simps draw_def demo_loaders_def demo_sample_def)

lemma demo_backward: "backward (sum_losses (Fin 1) (Fin 1) (Fin 1) (Fin 1) (Fin 1)) = Inr (Fin 5)"
  by (simp add: sum_losses_def accumulate_def isnan_def)

lemma demo_training_pass:
  "training_pass demo 2 10 (demo_start\<lparr>net := 10, checkpoint_files := [demo_ck 6 6 5]\<rparr>) =
     Some (Inr (11, 1, 1, \<lparr> train_iters = [[], [12]], restarts = [0, 1] \<rparr>))"
  by (simp add: training_pass_def demo_def demo_start_def demo_sources_def demo_gather
      demo_backward)

text \<open>
  C7, as the code has it. Let \<open>steps\<close> be the bound of the loop, which is the configured
  step target rounded up to the next checkpoint boundary, plus one, and take an iteration
  whose pass over the batches completes. If its step counter is a checkpoint boundary (a
  non-zero multiple of \<open>steps_per_checkpoint\<close>) and is greater than 4/5 of \<open>steps\<close>, the
  iteration writes its checkpoint, hands the 2 most recent checkpoint files to the
  averaging, stores the averaged parameters as the best checkpoint and leaves them in the
  live model, so that the next iteration trains on them. Every other iteration leaves the
  best checkpoint alone and leaves the parameters of its own optimizer step in the live
  model.
\<close>

theorem averaging_in_final_fifth:
  assumes "0 < steps_per_checkpoint"
    and "adjust_steps configured steps_per_checkpoint = Inr steps"
    and "training_pass C batch_size step_counter t = Some (Inr (w, opt, sch, src))"
    and "files = delete_old_checkpoints C
           (checkpoint_files t @
            [\<lparr> ck_model = w, ck_optimizer = opt, ck_scheduler = sch,
               ck_step_counter = step_counter, ck_config = net_config t \<rparr>]) 5"
  shows "steps = next_boundary configured steps_per_checkpoint + 1 \<and>
         (\<exists>t'. train_iteration C steps steps_per_checkpoint batch_size step_counter t =
                  Some (Inr t') \<and>
            (swa_due steps steps_per_checkpoint step_counter \<longrightarrow>
               checkpoint_files t' = files \<and>
               best_file t' =
                 Some (save_model_for_use C
                         (average_checkpoints C (get_n_recent_checkpoints_paths C files 2))) \<and>
               net t' =
                 save_model_for_use C
                   (average_checkpoints C (get_n_recent_checkpoints_paths C files 2))) \<and>
            (\<not> swa_due steps steps_per_checkpoint step_counter \<longrightarrow>
               best_file t' = best_file t \<and> net t' = w))"
proof -
  have s: "steps = next_boundary configured steps_per_checkpoint + 1"
    using assms(1,2) by (simp add: adjust_steps_next_boundary)
  show ?thesis
  proof (cases "step_counter mod steps_per_checkpoint = 0 \<and> step_counter \<noteq> 0")
    case False
    then have n: "\<not> swa_due steps steps_per_checkpoint step_counter"
      by (auto simp: swa_due_def)
    from train_iteration_plain[OF assms(3) False, of steps] s n show ?thesis by simp
  next
    case True
    then have b: "step_counter mod steps_per_checkpoint = 0" "step_counter \<noteq> 0" by simp_all
    show ?thesis
    proof (cases "4 * steps < 5 * step_counter")
      case True
      then have d: "swa_due steps steps_per_checkpoint step_counter"
        using b by (simp add: swa_due_def)
      from train_iteration_average[OF assms(3) b True assms(4)] s d show ?thesis by simp
    next
      case False
      then have n: "\<not> swa_due steps steps_per_checkpoint step_counter"
        by (simp add: swa_due_def)
      from train_iteration_checkpoint[OF assms(3) b False] s n show ?thesis by simp
    qed
  qed
qed

theorem averaging_in_final_fifth_witness:
  "(0::int) < 5 \<and> adjust_steps 10 5 = Inr 11 \<and> swa_due 11 5 10 \<and>
   training_pass demo 2 10 (demo_start\<lparr>net := 10, checkpoint_files := [demo_ck 6 6 5]\<rparr>) =
     Some (Inr (11, 1, 1, \<lparr> train_iters = [[], [12]], restarts = [0, 1] \<rparr>)) \<and>
   train_iteration demo 11 5 2 10 (demo_start\<lparr>net := 10, checkpoint_files := [demo_ck 6 6 5]\<rparr>) =
     Some (Inr (demo_start\<lparr>net := 17 / 2, optimizer := 1, scheduler := 1,
        data_sources := \<lparr> train_iters = [[], [12]], restarts = [0, 1] \<rparr>,
        checkpoint_files := [demo_ck 6 6 5, demo_ck 11 1 10], best_file := Some (17 / 2),
        executed := [10]\<rparr>))"
proof -
  let ?t = "demo_start\<lparr>net := 10, checkpoint_files := [demo_ck 6 6 5]\<rparr>"
  have a: "adjust_steps 10 5 = Inr 11" by (simp add: adjust_steps_def)
  have d: "swa_due 11 5 10" by (simp add: swa_due_def)
  have f: "[demo_ck 6 6 5, demo_ck 11 1 10] =
      delete_old_checkpoints demo
        (checkpoint_files ?t @
         [\<lparr> ck_model = 11, ck_optimizer = 1, ck_scheduler = 1,
            ck_step_counter = 10, ck_config = net_config ?t \<rparr>]) 5"
    by (simp add: demo_def demo_start_def demo_ck_def)
  have v: "save_model_for_use demo
             (average_checkpoints demo
                (get_n_recent_checkpoints_paths demo [demo_ck 6 6 5, demo_ck 11 1 10] 2)) = 17 / 2"
    by (simp add: demo_def demo_ck_def)
  from averaging_in_final_fifth[OF _ a demo_training_pass f] d
  obtain t' where
    r: "train_iteration demo 11 5 2 10 ?t = Some (Inr t')"
    and "checkpoint_files t' = [demo_ck 6 6 5, demo_ck 11 1 10]"
    and "best_file t' = Some (17 / 2)" and "net t' = 17 / 2"
    unfolding v by auto
  have e: "train_iteration demo 11 5 2 10 ?t =
     Some (Inr (demo_start\<lparr>net := 17 / 2, optimizer := 1, scheduler := 1,
        data_sources := \<lparr> train_iters = [[], [12]], restarts = [0, 1] \<rparr>,
        checkpoint_files := [demo_ck 6 6 5, demo_ck 11 1 10], best_file := Some (17 / 2),
        executed := [10]\<rparr>))"
    using train_iteration_average[OF demo_training_pass _ _ _ f, of 5 11] v
    by (simp add: demo_start_def)
  from a d demo_training_pass e show ?thesis by simp
qed

text \<open>A fresh run of the concrete collaborators, step by step.\<close>

lemma demo_setup: "train_setup demo (demo_args 4 4) = Inr (5, demo_fresh, 0, False)"
proof -
  have "replicate 2 (0::nat) = [0, 0]" by (simp add: numeral_2_eq_2)
  then show ?thesis
    by (simp add: train_setup_def demo_args_def adjust_steps_def restore_def demo_def
        demo_fresh_def demo_loaders_def upt_rec)
qed

lemma demo_pass_both:
  assumes "data_sources t = \<lparr> train_iters = [a # as, b # bs], restarts = [m, n] \<rparr>"
  shows "training_pass demo 2 step_counter t =
   Some (Inr (net t + 1, Suc (optimizer t), Suc (scheduler t),
              \<lparr> train_iters = [as, bs], restarts = [m, n] \<rparr>))"
  using assms
  by (simp add: training_pass_def demo_def gather.simps draw_def demo_sample_def demo_backward)

lemma demo_pass_restart:
  assumes "data_sources t = \<lparr> train_iters = [[], []], restarts = [m, n] \<rparr>"
  shows "training_pass demo 2 step_counter t =
   Some (Inr (net t + 1, Suc (optimizer t), Suc (scheduler t),
              \<lparr> train_iters = [[2], [12]], restarts = [Suc m, Suc n] \<rparr>))"
  using assms
  by (simp add: training_pass_def demo_def gather.simps draw_def demo_sample_def demo_backward
      demo_loaders_def)

lemma demo_run: "run_steps demo 5 4 2 [0, 1, 2, 3] demo_fresh = Some (Inr demo_trained)"
proof -
  let ?s = "\<lambda>w n xs ys r e. demo_fresh\<lparr>net := w, optimizer := n, scheduler := n,
                     data_sources := \<lparr> train_iters = [xs, ys], restarts = [r, r] \<rparr>,
                     executed := e\<rparr>"
  have p0: "training_pass demo 2 0 (?s 0 0 [1, 2] [11, 12] 0 []) =
              Some (Inr (1, 1, 1, \<lparr> train_iters = [[2], [12]], restarts = [0, 0] \<rparr>))"
    by (simp add: demo_pass_both)
  have 0: "train_iteration demo 5 4 2 0 (?s 0 0 [1, 2] [11, 12] 0 []) =
             Some (Inr (?s 1 1 [2] [12] 0 [0]))"
    using train_iteration_plain[OF p0, where steps_per_checkpoint = 4 and steps = 5]
    by (simp add: demo_fresh_def)
  have p1: "training_pass demo 2 1 (?s 1 1 [2] [12] 0 [0]) =
              Some (Inr (2, 2, 2, \<lparr> train_iters = [[], []], restarts = [0, 0] \<rparr>))"
    by (simp add: demo_pass_both)
  have 1: "train_iteration demo 5 4 2 1 (?s 1 1 [2] [12] 0 [0]) =
             Some (Inr (?s 2 2 [] [] 0 [0, 1]))"
    using train_iteration_plain[OF p1, where steps_per_checkpoint = 4 and steps = 5]
    by (simp add: demo_fresh_def)
  have p2: "training_pass demo 2 2 (?s 2 2 [] [] 0 [0, 1]) =
              Some (Inr (3, 3, 3, \<lparr> train_iters = [[2], [12]], restarts = [1, 1] \<rparr>))"
    by (simp add: demo_pass_restart)
  have 2: "train_iteration demo 5 4 2 2 (?s 2 2 [] [] 0 [0, 1]) =
             Some (Inr (?s 3 3 [2] [12] 1 [0, 1, 2]))"
    using train_iteration_plain[OF p2, where steps_per_checkpoint = 4 and steps = 5]
    by (simp add: demo_fresh_def)
  have p3: "training_pass demo 2 3 (?s 3 3 [2] [12] 1 [0, 1, 2]) =
              Some (Inr (4, 4, 4, \<lparr> train_iters = [[], []], restarts = [1, 1] \<rparr>))"
    by (simp add: demo_pass_both)
  have 3: "train_iteration demo 5 4 2 3 (?s 3 3 [2] [12] 1 [0, 1, 2]) =
             Some (Inr (?s 4 4 [] [] 1 [0, 1, 2, 3]))"
    using train_iteration_plain[OF p3, where steps_per_checkpoint = 4 and steps = 5]
    by (simp add: demo_fresh_def)
  have "run_steps demo 5 4 2 [0, 1, 2, 3] (?s 0 0 [1, 2] [11, 12] 0 []) =
          Some (Inr (?s 4 4 [] [] 1 [0, 1, 2, 3]))"
    by (simp only: run_steps.simps 0 1 2 3 option.case sum.case)
  then show ?thesis by (simp add: demo_trained_def demo_fresh_def)
qed

lemma demo_last_pass:
  "training_pass demo 2 4 demo_trained =
     Some (Inr (5, 5, 5, \<lparr> train_iters = [[2], [12]], restarts = [2, 2] \<rparr>))"
proof -
  have "data_sources demo_trained = \<lparr> train_iters = [[], []], restarts = [1, 1] \<rparr>"
    by (simp add: demo_trained_def)
  from demo_pass_restart[OF this, of 4] show ?thesis
    by (simp add: demo_trained_def demo_fresh_def)
qed

lemma demo_last_iteration:
  "train_iteration demo 5 4 2 4 demo_trained =
     Some (Inr (demo_trained\<lparr>net := 5, optimizer := 5, scheduler := 5,
        data_sources := \<lparr> train_iters = [[2], [12]], restarts = [2, 2] \<rparr>,
        executed := [0, 1, 2, 3, 4],
        checkpoint_files :=
          [\<lparr> ck_model = 5, ck_optimizer = 5, ck_scheduler = 5, ck_step_counter = 4,
             ck_config = self_config (ToucanTTS_init Map.empty) \<rparr>]\<rparr>))"
  using train_iteration_checkpoint[OF demo_last_pass, where steps_per_checkpoint = 4 and steps = 5]
  by (simp add: demo_trained_def demo_fresh_def demo_def)

lemma run_steps_snoc:
  "run_steps C s c b (xs @ [x]) t =
     (case run_steps C s c b xs t of None \<Rightarrow> None | Some (Inl e) \<Rightarrow> Some (Inl e)
      | Some (Inr t') \<Rightarrow> train_iteration C s c b x t')"
  by (induction xs arbitrary: t) (simp_all split: option.splits sum.splits)

lemma demo_train_loop:
  "train_loop demo (demo_args 4 4) =
     Some (Inr (demo_trained\<lparr>net := 5, optimizer := 5, scheduler := 5,
        data_sources := \<lparr> train_iters = [[2], [12]], restarts = [2, 2] \<rparr>,
        executed := [0, 1, 2, 3, 4],
        checkpoint_files :=
          [\<lparr> ck_model = 5, ck_optimizer = 5, ck_scheduler = 5, ck_step_counter = 4,
             ck_config = self_config (ToucanTTS_init Map.empty) \<rparr>]\<rparr>))"
proof -
  have r: "py_range 0 5 = [0, 1, 2, 3] @ [4]" by (simp add: py_range_def upto.simps)
  have "train_loop demo (demo_args 4 4) = run_steps demo 5 4 2 ([0, 1, 2, 3] @ [4]) demo_fresh"
    by (simp add: train_loop_def demo_setup demo_args_simps r del: append.simps)
  also have "\<dots> = train_iteration demo 5 4 2 4 demo_trained"
    by (simp only: run_steps_snoc demo_run option.case sum.case)
  finally show ?thesis by (simp only: demo_last_iteration)
qed

text \<open>
  C7 with the configured step target in place of the loop bound fails. With a step
  target of 4 and a checkpoint every 4 steps, step counter 4 is a checkpoint boundary and
  lies above 4/5 of the target; the run, every pass of which completes, writes that
  checkpoint and ends without ever having written a best checkpoint, its live model
  still holding the parameters of the last optimizer step.
\<close>

theorem averaging_in_final_fifth_counterexample:
  "(4::int) mod 4 = 0 \<and> (4::int) \<noteq> 0 \<and> real_of_int 4 > real_of_int (4 * 4) / 5 \<and>
   train_loop demo (demo_args 4 4) =
     Some (Inr \<lparr> net = 5, net_config = self_config (ToucanTTS_init Map.empty),
                 optimizer = 5, scheduler = 5,
                 data_sources = \<lparr> train_iters = [[2], [12]], restarts = [2, 2] \<rparr>,
                 checkpoint_files =
                   [\<lparr> ck_model = 5, ck_optimizer = 5, ck_scheduler = 5, ck_step_counter = 4,
                      ck_config = self_config (ToucanTTS_init Map.empty) \<rparr>],
                 best_file = None, executed = [0, 1, 2, 3, 4] \<rparr>)"
  by (simp add: demo_train_loop demo_trained_def demo_fresh_def)

subsection \<open>Starting from a checkpoint\<close>

text \<open>
  C8. When the loop starts from a checkpoint (the most recent one of the save directory
  under \<open>resume\<close>, the given path otherwise) the parameters of the model are those of the
  checkpoint. With fine-tuning disabled the optimizer state, the scheduler state and the
  step counter are those of the checkpoint as well; with fine-tuning enabled the
  optimizer and the scheduler are the freshly created ones and the step counter is 0.
\<close>

theorem start_from_checkpoint:
  assumes "arg_steps_per_checkpoint a \<noteq> 0"
    and "(if arg_resume a then get_most_recent_checkpoint C (arg_save_directory a)
          else arg_path_to_checkpoint a) = Some p"
    and "torch_load C p = Inr ck"
  shows "\<exists>steps t prev returned.
           train_setup C a = Inr (steps, t, prev, returned) \<and>
           adjust_steps (arg_steps a) (arg_steps_per_checkpoint a) = Inr steps \<and>
           net t = ck_model ck \<and>
           (\<not> arg_fine_tune a \<longrightarrow>
              optimizer t = ck_optimizer ck \<and> scheduler t = ck_scheduler ck \<and>
              prev = ck_step_counter ck) \<and>
           (arg_fine_tune a \<longrightarrow>
              optimizer t = AdamW C \<and> scheduler t = WarmupScheduler C steps \<and> prev = 0)"
  using assms
  by (auto simp: train_setup_def adjust_steps_def restore_def Let_def)

theorem start_from_checkpoint_witness:
  "train_setup demo (demo_resume False) =
      Inr (11, demo_fresh\<lparr>net := 7, optimizer := 4, scheduler := 4\<rparr>, 3, False) \<and>
   train_setup demo (demo_resume True) = Inr (11, demo_fresh\<lparr>net := 7\<rparr>, 0, False)"
proof -
  have r: "replicate 2 (0::nat) = [0, 0]" by (simp add: numeral_2_eq_2)
  show ?thesis
    using start_from_checkpoint[of "demo_resume False" demo "''checkpoint_3.pt''"]
      start_from_checkpoint[of "demo_resume True" demo "''checkpoint_3.pt''"]
    by (simp add: demo_resume_def demo_args_def demo_def train_setup_def adjust_steps_def
        restore_def demo_fresh_def demo_loaders_def upt_rec r)
qed

subsection \<open>The stored configuration\<close>

lemma config_codebook_dim:
  "dict_display (config_entries arg) ''codebook_dim'' = Some (arg ''codebook_size'')"
  by (simp add: config_entries_def dict_display_def)

lemma bind_defaults:
  "bind_args Map.empty ''codebook_size'' = PyInt 1024"
  "bind_args Map.empty ''codebook_dim'' = PyInt 8"
  by (simp_all add: bind_args_def init_defaults_def)

lemma bind_args_other:
  "name \<noteq> k \<Longrightarrow> bind_args (kwargs(k \<mapsto> v)) name = bind_args kwargs name"
  by (simp add: bind_args_def)

lemma config_ignores_codebook_dim:
  "dict_display (config_entries (bind_args (kwargs(''codebook_dim'' \<mapsto> v)))) =
   dict_display (config_entries (bind_args kwargs))"
  by (simp add: config_entries_def dict_display_def bind_args_other)

lemma net_config_restore:
  "restore C r f p steps t = Inr (t', prev, ret) \<Longrightarrow> net_config t' = net_config t"
  by (auto simp: restore_def Let_def split: option.splits sum.splits if_splits)

lemma net_config_train_setup:
  "train_setup C a = Inr (steps, t, prev, ret) \<Longrightarrow> net_config t = self_config (arg_model a)"
  by (auto simp: train_setup_def Let_def split: sum.splits dest!: net_config_restore)

lemma net_config_train_loop:
  assumes "train_loop C a = Some (Inr t)"
  shows "net_config t = self_config (arg_model a)"
proof -
  from assms obtain steps t0 prev returned where
    s: "train_setup C a = Inr (steps, t0, prev, returned)"
    by (auto simp: train_loop_def split: sum.splits)
  show ?thesis
  proof (cases returned)
    case True
    then have "t = t0" using assms s by (simp add: train_loop_def)
    then show ?thesis using net_config_train_setup[OF s] by simp
  next
    case False
    then have "run_steps C steps (arg_steps_per_checkpoint a) (arg_batch_size a)
                 (py_range prev steps) t0 = Some (Inr t)"
      using assms s by (simp add: train_loop_def)
    from run_steps_returns[OF this] net_config_train_setup[OF s] show ?thesis by simp
  qed
qed

text \<open>
  A checkpoint boundary whose pass completes hands the checkpoint dictionary, with the
  \<open>config\<close> of the live model in it, to the save directory, in the final fifth or not.
\<close>

lemma train_iteration_writes:
  assumes "training_pass C batch_size step_counter t = Some (Inr (w, opt, sch, src))"
    and "step_counter mod steps_per_checkpoint = 0" and "step_counter \<noteq> 0"
  shows "\<exists>t'. train_iteration C steps steps_per_checkpoint batch_size step_counter t =
                 Some (Inr t') \<and>
              checkpoint_files t' =
                delete_old_checkpoints C
                  (checkpoint_files t @
                   [\<lparr> ck_model = w, ck_optimizer = opt, ck_scheduler = sch,
                      ck_step_counter = step_counter, ck_config = net_config t \<rparr>]) 5 \<and>
              net_config t' = net_config t"
proof (cases "4 * steps < 5 * step_counter")
  case True
  from train_iteration_average[OF assms True refl] show ?thesis by simp
next
  case False
  from train_iteration_checkpoint[OF assms False] show ?thesis by simp
qed

text \<open>
  C9. The dictionary that the constructor stores as \<open>config\<close> maps the key
  \<open>codebook_dim\<close> to the argument \<open>codebook_size\<close>, while the attribute \<open>codebook_dim\<close>
  holds the argument \<open>codebook_dim\<close>. With the default arguments the former is 1024 and
  the latter 8. The stored dictionary is the same whatever \<open>codebook_dim\<close> is passed, so
  none of its keys records it. The training loop takes that dictionary from the model it
  is given and never changes it: from the state \<open>t\<close> that the loop has reached from its
  start by iterations that completed, an iteration at a checkpoint boundary whose pass
  completes hands to the save directory a checkpoint that holds, beside the new states
  of model, optimizer and scheduler and the step counter, that dictionary under
  \<open>config\<close>; and a run that returns leaves it as the \<open>config\<close> of the model.
\<close>

theorem stored_config_codebook_dim:
  "self_config (ToucanTTS_init kwargs) ''codebook_dim'' = Some (bind_args kwargs ''codebook_size'') \<and>
   self_codebook_dim (ToucanTTS_init kwargs) = bind_args kwargs ''codebook_dim'' \<and>
   self_config (ToucanTTS_init Map.empty) ''codebook_dim'' = Some (PyInt 1024) \<and>
   self_codebook_dim (ToucanTTS_init Map.empty) = PyInt 8 \<and>
   self_config (ToucanTTS_init (kwargs(''codebook_dim'' \<mapsto> v))) = self_config (ToucanTTS_init kwargs) \<and>
   (arg_model a = ToucanTTS_init kwargs \<and>
    train_setup C a = Inr (steps, t0, prev, returned) \<and>
    run_steps C steps steps_per_checkpoint batch_size xs t0 = Some (Inr t) \<and>
    training_pass C batch_size step_counter t = Some (Inr (w, opt, sch, src)) \<and>
    step_counter mod steps_per_checkpoint = 0 \<and> step_counter \<noteq> 0 \<longrightarrow>
      (\<exists>t'. train_iteration C steps steps_per_checkpoint batch_size step_counter t =
               Some (Inr t') \<and>
            checkpoint_files t' =
              delete_old_checkpoints C
                (checkpoint_files t @
                 [\<lparr> ck_model = w, ck_optimizer = opt, ck_scheduler = sch,
                    ck_step_counter = step_counter,
                    ck_config = self_config (ToucanTTS_init kwargs) \<rparr>]) 5 \<and>
            net_config t' = self_config (ToucanTTS_init kwargs))) \<and>
   (\<forall>t. arg_model a = ToucanTTS_init kwargs \<and> train_loop C a = Some (Inr t) \<longrightarrow>
        net_config t = self_config (ToucanTTS_init kwargs))"
proof -
  have 1: "self_config (ToucanTTS_init kw) ''codebook_dim'' = Some (bind_args kw ''codebook_size'')" for kw
    by (simp add: ToucanTTS_init_def Let_def config_codebook_dim)
  have 2: "self_codebook_dim (ToucanTTS_init kw) = bind_args kw ''codebook_dim''" for kw
    by (simp add: ToucanTTS_init_def Let_def)
  have 3: "self_config (ToucanTTS_init (kwargs(''codebook_dim'' \<mapsto> v))) = self_config (ToucanTTS_init kwargs)"
    by (simp add: ToucanTTS_init_def Let_def config_ignores_codebook_dim)
  have 4: "self_config (ToucanTTS_init Map.empty) ''codebook_dim'' = Some (PyInt 1024)"
    using 1[of Map.empty] by (simp add: bind_defaults)
  have 5: "self_codebook_dim (ToucanTTS_init Map.empty) = PyInt 8"
    using 2[of Map.empty] by (simp add: bind_defaults)
  have 6: "\<exists>t'. train_iteration C steps steps_per_checkpoint batch_size step_counter t =
               Some (Inr t') \<and>
            checkpoint_files t' =
              delete_old_checkpoints C
                (checkpoint_files t @
                 [\<lparr> ck_model = w, ck_optimizer = opt, ck_scheduler = sch,
                    ck_step_counter = step_counter,
                    ck_config = self_config (ToucanTTS_init kwargs) \<rparr>]) 5 \<and>
            net_config t' = self_config (ToucanTTS_init kwargs)"
    if m: "arg_model a = ToucanTTS_init kwargs"
      and s: "train_setup C a = Inr (steps, t0, prev, returned)"
      and r: "run_steps C steps steps_per_checkpoint batch_size xs t0 = Some (Inr t)"
      and p: "training_pass C batch_size step_counter t = Some (Inr (w, opt, sch, src))"
      and b: "step_counter mod steps_per_checkpoint = 0" "step_counter \<noteq> 0"
  proof -
    have c: "net_config t = self_config (ToucanTTS_init kwargs)"
      using run_steps_returns[OF r] net_config_train_setup[OF s] m by simp
    from train_iteration_writes[OF p b, of steps] show ?thesis unfolding c .
  qed
  have 7: "net_config t = self_config (ToucanTTS_init kwargs)"
    if "arg_model a = ToucanTTS_init kwargs" and "train_loop C a = Some (Inr t)" for t
    using net_config_train_loop[OF that(2)] that(1) by simp
  have 8: "arg_model a = ToucanTTS_init kwargs \<and>
    train_setup C a = Inr (steps, t0, prev, returned) \<and>
    run_steps C steps steps_per_checkpoint batch_size xs t0 = Some (Inr t) \<and>
    training_pass C batch_size step_counter t = Some (Inr (w, opt, sch, src)) \<and>
    step_counter mod steps_per_checkpoint = 0 \<and> step_counter \<noteq> 0 \<longrightarrow>
      (\<exists>t'. train_iteration C steps steps_per_checkpoint batch_size step_counter t =
               Some (Inr t') \<and>
            checkpoint_files t' =
              delete_old_checkpoints C
                (checkpoint_files t @
                 [\<lparr> ck_model = w, ck_optimizer = opt, ck_scheduler = sch,
                    ck_step_counter = step_counter,
                    ck_config = self_config (ToucanTTS_init kwargs) \<rparr>]) 5 \<and>
            net_config t' = self_config (ToucanTTS_init kwargs))"
    by (intro impI, elim conjE, rule 6)
  have 9: "\<forall>t. arg_model a = ToucanTTS_init kwargs \<and> train_loop C a = Some (Inr t) \<longrightarrow>
        net_config t = self_config (ToucanTTS_init kwargs)"
    by (intro allI impI, elim conjE, rule 7)
  from 1[of kwargs] 2[of kwargs] 4 5 3 8 9 show ?thesis by (intro conjI)
qed

theorem stored_config_codebook_dim_witness:
  "arg_model (demo_args 4 4) = ToucanTTS_init Map.empty \<and>
   train_setup demo (demo_args 4 4) = Inr (5, demo_fresh, 0, False) \<and>
   run_steps demo 5 4 2 [0, 1, 2, 3] demo_fresh = Some (Inr demo_trained) \<and>
   training_pass demo 2 4 demo_trained =
     Some (Inr (5, 5, 5, \<lparr> train_iters = [[2], [12]], restarts = [2, 2] \<rparr>)) \<and>
   (4::int) mod 4 = 0 \<and> (4::int) \<noteq> 0 \<and>
   train_iteration demo 5 4 2 4 demo_trained =
     Some (Inr (demo_trained\<lparr>net := 5, optimizer := 5, scheduler := 5,
        data_sources := \<lparr> train_iters = [[2], [12]], restarts = [2, 2] \<rparr>,
        executed := [0, 1, 2, 3, 4],
        checkpoint_files :=
          [\<lparr> ck_model = 5, ck_optimizer = 5, ck_scheduler = 5, ck_step_counter = 4,
             ck_config = self_config (ToucanTTS_init Map.empty) \<rparr>]\<rparr>)) \<and>
   self_config (ToucanTTS_init Map.empty) ''codebook_dim'' = Some (PyInt 1024) \<and>
   self_codebook_dim (ToucanTTS_init Map.empty) = PyInt 8 \<and>
   self_config (ToucanTTS_init [''codebook_dim'' \<mapsto> PyInt 4]) ''codebook_dim'' = Some (PyInt 1024) \<and>
   self_codebook_dim (ToucanTTS_init [''codebook_dim'' \<mapsto> PyInt 4]) = PyInt 4"
proof -
  note w = stored_config_codebook_dim[where kwargs = Map.empty and v = "PyInt 4"
      and a = "demo_args 4 4" and C = demo and steps = 5 and ?t0.0 = demo_fresh and prev = 0
      and returned = False and steps_per_checkpoint = 4 and batch_size = 2
      and xs = "[0, 1, 2, 3]" and t = demo_trained and step_counter = 4
      and w = 5 and opt = 5 and sch = 5
      and src = "\<lparr> train_iters = [[2], [12]], restarts = [2, 2] \<rparr>"]
  note k = stored_config_codebook_dim[where kwargs = "[''codebook_dim'' \<mapsto> PyInt 4]"
      and v = "PyInt 4" and a = "demo_args 4 4" and C = demo and steps = 5
      and ?t0.0 = demo_fresh and prev = 0
      and returned = False and steps_per_checkpoint = 4 and batch_size = 2
      and xs = "[0, 1, 2, 3]" and t = demo_trained and step_counter = 4
      and w = 5 and opt = 5 and sch = 5
      and src = "\<lparr> train_iters = [[2], [12]], restarts = [2, 2] \<rparr>"]
  have m: "arg_model (demo_args 4 4) = ToucanTTS_init Map.empty" by (simp add: demo_args_simps)
  have b: "(4::int) mod 4 = 0" "(4::int) \<noteq> 0" by simp_all
  from w have 4: "self_config (ToucanTTS_init Map.empty) ''codebook_dim'' = Some (PyInt 1024)"
    and 5: "self_codebook_dim (ToucanTTS_init Map.empty) = PyInt 8"
    by blast+
  from w m demo_setup demo_run demo_last_pass b
  obtain t' where "train_iteration demo 5 4 2 4 demo_trained = Some (Inr t')"
    and "checkpoint_files t' =
           delete_old_checkpoints demo
             (checkpoint_files demo_trained @
              [\<lparr> ck_model = 5, ck_optimizer = 5, ck_scheduler = 5, ck_step_counter = 4,
                 ck_config = self_config (ToucanTTS_init Map.empty) \<rparr>]) 5"
    by blast
  from k have 8: "self_config (ToucanTTS_init [''codebook_dim'' \<mapsto> PyInt 4]) ''codebook_dim'' =
                    Some (bind_args [''codebook_dim'' \<mapsto> PyInt 4] ''codebook_size'')"
    and 9: "self_codebook_dim (ToucanTTS_init [''codebook_dim'' \<mapsto> PyInt 4]) =
              bind_args [''codebook_dim'' \<mapsto> PyInt 4] ''codebook_dim''"
    by blast+
  have 10: "bind_args [''codebook_dim'' \<mapsto> PyInt 4] ''codebook_size'' = PyInt 1024"
    "bind_args [''codebook_dim'' \<mapsto> PyInt 4] ''codebook_dim'' = PyInt 4"
    by (simp_all add: bind_args_def init_defaults_def)
  from m demo_setup demo_run demo_last_pass b demo_last_iteration 4 5 8[unfolded 10] 9[unfolded 10]
  show ?thesis by (intro conjI)
qed

subsection \<open>The overrides\<close>

lemma torch_round_0 [simp]: "torch_round 0 = 0"
  by (simp add: torch_round_def)

lemma and_then_Inr [simp]: "and_then (Inr x) f = f x"
  by (simp add: and_then_def)

lemma and_then_Inl [simp]: "and_then (Inl e) f = Inl e"
  by (simp add: and_then_def)

lemma override_token_ok:
  assumes "lookup ''voiced'' < length v" and "lookup ''phoneme'' < length v"
    and "lookup ''word-boundary'' < length v" and "lookup ''silence'' < length v"
    and "i < length p" and "i < length e" and "i < length d"
  shows "\<exists>p' e' d'. override_token lookup pause i v (p, e, d) = Inr (p', e', d') \<and>
           length p' = length p \<and> length e' = length e \<and> length d' = length d \<and>
           p' ! i = (if flag lookup v ''voiced'' = 0 then 0 else p ! i) \<and>
           e' ! i = (if flag lookup v ''phoneme'' = 0 then 0 else e ! i) \<and>
           (flag lookup v ''word-boundary'' = 1 \<longrightarrow> d' ! i = 0) \<and>
           (\<forall>k. k \<noteq> i \<longrightarrow> p' ! k = p ! k \<and> e' ! k = e ! k \<and> d' ! k = d ! k)"
  using assms
  by (simp add: override_token_def getitem_def setitem_def flag_def)


lemma override_loop_ok:
  assumes "text_ok lookup ts"
    and "i + length ts \<le> length p" and "i + length ts \<le> length e"
    and "i + length ts \<le> length d"
  shows "\<exists>p' e' d'. override_loop lookup pause i ts (p, e, d) = Inr (p', e', d') \<and>
           length p' = length p \<and> length e' = length e \<and> length d' = length d \<and>
           (\<forall>j < length ts.
              p' ! (i + j) = (if flag lookup (ts ! j) ''voiced'' = 0 then 0 else p ! (i + j)) \<and>
              e' ! (i + j) = (if flag lookup (ts ! j) ''phoneme'' = 0 then 0 else e ! (i + j)) \<and>
              (flag lookup (ts ! j) ''word-boundary'' = 1 \<longrightarrow> d' ! (i + j) = 0)) \<and>
           (\<forall>k. k < i \<longrightarrow> p' ! k = p ! k \<and> e' ! k = e ! k \<and> d' ! k = d ! k)"
  using assms
proof (induction ts arbitrary: i p e d)
  case Nil
  then show ?case by simp
next
  case (Cons v ts)
  from Cons.prems(1) have v: "lookup ''voiced'' < length v" "lookup ''phoneme'' < length v"
      "lookup ''word-boundary'' < length v" "lookup ''silence'' < length v"
    and ok: "text_ok lookup ts"
    by (simp_all add: text_ok_def)
  from Cons.prems have i: "i < length p" "i < length e" "i < length d" by simp_all
  from override_token_ok[OF v i, of pause] obtain p1 e1 d1 where
    t: "override_token lookup pause i v (p, e, d) = Inr (p1, e1, d1)"
    and l1: "length p1 = length p" "length e1 = length e" "length d1 = length d"
    and at: "p1 ! i = (if flag lookup v ''voiced'' = 0 then 0 else p ! i)"
      "e1 ! i = (if flag lookup v ''phoneme'' = 0 then 0 else e ! i)"
      "flag lookup v ''word-boundary'' = 1 \<longrightarrow> d1 ! i = 0"
    and other: "\<And>k. k \<noteq> i \<Longrightarrow> p1 ! k = p ! k \<and> e1 ! k = e ! k \<and> d1 ! k = d ! k"
    by blast
  have b: "Suc i + length ts \<le> length p1" "Suc i + length ts \<le> length e1"
      "Suc i + length ts \<le> length d1"
    using Cons.prems l1 by simp_all
  from Cons.IH[OF ok b] obtain p' e' d' where
    r: "override_loop lookup pause (Suc i) ts (p1, e1, d1) = Inr (p', e', d')"
    and l: "length p' = length p1" "length e' = length e1" "length d' = length d1"
    and inner: "\<And>j. j < length ts \<Longrightarrow>
              p' ! (Suc i + j) = (if flag lookup (ts ! j) ''voiced'' = 0 then 0 else p1 ! (Suc i + j)) \<and>
              e' ! (Suc i + j) = (if flag lookup (ts ! j) ''phoneme'' = 0 then 0 else e1 ! (Suc i + j)) \<and>
              (flag lookup (ts ! j) ''word-boundary'' = 1 \<longrightarrow> d' ! (Suc i + j) = 0)"
    and before: "\<And>k. k < Suc i \<Longrightarrow> p' ! k = p1 ! k \<and> e' ! k = e1 ! k \<and> d' ! k = d1 ! k"
    by blast
  have run: "override_loop lookup pause i (v # ts) (p, e, d) = Inr (p', e', d')"
    using t r by simp
  have each: "p' ! (i + j) = (if flag lookup ((v # ts) ! j) ''voiced'' = 0 then 0 else p ! (i + j)) \<and>
              e' ! (i + j) = (if flag lookup ((v # ts) ! j) ''phoneme'' = 0 then 0 else e ! (i + j)) \<and>
              (flag lookup ((v # ts) ! j) ''word-boundary'' = 1 \<longrightarrow> d' ! (i + j) = 0)"
    if "j < length (v # ts)" for j
  proof (cases j)
    case 0
    then show ?thesis using before[of i] at by simp
  next
    case (Suc j')
    then have "j' < length ts" using that by simp
    from inner[OF this] other[of "Suc i + j'"] Suc show ?thesis by simp
  qed
  have pre: "p' ! k = p ! k \<and> e' ! k = e ! k \<and> d' ! k = d ! k" if "k < i" for k
    using before[of k] other[of k] that by simp
  show ?case using run l l1 each pre by auto
qed


lemma word_boundary_loop_ok:
  assumes "wb_ok lookup ts" and "i + length ts \<le> length d"
  shows "\<exists>d'. word_boundary_loop lookup i ts d = Inr d' \<and> length d' = length d \<and>
           (\<forall>j < length ts.
              d' ! (i + j) = (if flag lookup (ts ! j) ''word-boundary'' = 1 then 0 else d ! (i + j))) \<and>
           (\<forall>k. k < i \<longrightarrow> d' ! k = d ! k)"
  using assms
proof (induction ts arbitrary: i d)
  case Nil
  then show ?case by simp
next
  case (Cons v ts)
  from Cons.prems(1) have v: "lookup ''word-boundary'' < length v" and ok: "wb_ok lookup ts"
    by (simp_all add: wb_ok_def)
  from Cons.prems(2) have i: "i < length d" by simp
  define d1 where "d1 = (if flag lookup v ''word-boundary'' = 1 then d[i := 0] else d)"
  have l1: "length d1 = length d" by (simp add: d1_def)
  have step: "word_boundary_loop lookup i (v # ts) d = word_boundary_loop lookup (Suc i) ts d1"
    using v i by (simp add: getitem_def setitem_def flag_def d1_def)
  have b: "Suc i + length ts \<le> length d1" using Cons.prems(2) l1 by simp
  from Cons.IH[OF ok b] obtain d' where
    r: "word_boundary_loop lookup (Suc i) ts d1 = Inr d'" and l: "length d' = length d1"
    and inner: "\<And>j. j < length ts \<Longrightarrow>
       d' ! (Suc i + j) = (if flag lookup (ts ! j) ''word-boundary'' = 1 then 0 else d1 ! (Suc i + j))"
    and before: "\<And>k. k < Suc i \<Longrightarrow> d' ! k = d1 ! k"
    by blast
  have each: "d' ! (i + j) = (if flag lookup ((v # ts) ! j) ''word-boundary'' = 1 then 0 else d ! (i + j))"
    if "j < length (v # ts)" for j
  proof (cases j)
    case 0
    then show ?thesis using before[of i] i by (simp add: d1_def)
  next
    case (Suc j')
    then have "j' < length ts" using that by simp
    from inner[OF this] Suc show ?thesis by (simp add: d1_def)
  qed
  have pre: "d' ! k = d ! k" if "k < i" for k
    using before[of k] that by (simp add: d1_def)
  show ?case using step r l l1 each pre by auto
qed

lemma scale_durations_zero:
  assumes "scale_durations d f = Inr d'" and "j < length d" and "d ! j = 0"
  shows "d' ! j = 0"
  using assms by (auto simp: scale_durations_def split: if_splits)

lemma scale_durations_ok:
  assumes "0 < f"
  shows "\<exists>d'. scale_durations d f = Inr d' \<and> length d' = length d"
  using assms by (simp add: scale_durations_def)


lemma overrides_ok:
  assumes "text_ok lookup ts"
    and "length (gold_or gold_pitch pp) = length ts"
    and "length (gold_or gold_energy ep) = length ts"
    and "length (gold_or gold_durations dp) = length ts"
  shows "\<exists>p e d.
           overrides lookup ts pp ep dp gold_pitch gold_energy gold_durations pause = Inr (p, e, d) \<and>
           length p = length ts \<and> length e = length ts \<and> length d = length ts \<and>
           (\<forall>j < length ts.
              p ! j = (if flag lookup (ts ! j) ''voiced'' = 0 then 0
                       else gold_or gold_pitch pp ! j) \<and>
              e ! j = (if flag lookup (ts ! j) ''phoneme'' = 0 then 0
                       else gold_or gold_energy ep ! j) \<and>
              (flag lookup (ts ! j) ''word-boundary'' = 1 \<longrightarrow> d ! j = 0))"
proof -
  have b: "0 + length ts \<le> length (gold_or gold_pitch pp)"
    "0 + length ts \<le> length (gold_or gold_energy ep)"
    "0 + length ts \<le> length (gold_or gold_durations dp)"
    using assms(2,3,4) by simp_all
  from override_loop_ok[OF assms(1) b, of pause]
  obtain p e d where
    r: "override_loop lookup pause 0 ts
       (gold_or gold_pitch pp, gold_or gold_energy ep, gold_or gold_durations dp) = Inr (p, e, d)"
    and l: "length p = length (gold_or gold_pitch pp)" "length e = length (gold_or gold_energy ep)"
       "length d = length (gold_or gold_durations dp)"
    and each: "\<forall>j < length ts.
       p ! (0 + j) = (if flag lookup (ts ! j) ''voiced'' = 0 then 0 else gold_or gold_pitch pp ! (0 + j)) \<and>
       e ! (0 + j) = (if flag lookup (ts ! j) ''phoneme'' = 0 then 0 else gold_or gold_energy ep ! (0 + j)) \<and>
       (flag lookup (ts ! j) ''word-boundary'' = 1 \<longrightarrow> d ! (0 + j) = 0)"
    by blast
  have "overrides lookup ts pp ep dp gold_pitch gold_energy gold_durations pause = Inr (p, e, d)"
    using r by (simp add: overrides_def Let_def)
  moreover have "length p = length ts" "length e = length ts" "length d = length ts"
    using l assms(2,3,4) by simp_all
  ultimately show ?thesis using each by simp
qed

lemma demo_text_ok: "text_ok demo_lookup demo_text"
  by (simp add: text_ok_def demo_lookup_def demo_text_def)

lemma demo_overrides:
  "overrides demo_lookup demo_text [0, 0, 0, 0] [0, 0, 0, 0] [1, 1, 1, 1]
     (Some [5, 6, 7, 8]) (Some [1, 2, 3, 4]) (Some [3, 4, 5, 6]) 1 =
   Inr ([5, 0, 0, 0], [1, 2, 0, 0], [3, 4, 0, 6])"
  by (simp add: overrides_def gold_or_def override_token_def getitem_def setitem_def
      demo_lookup_def demo_text_def)


lemma text_ok_wb_ok: "text_ok lookup ts \<Longrightarrow> wb_ok lookup ts"
  by (simp add: text_ok_def wb_ok_def)

text \<open>
  C4, as the code has it. The training architecture overrides durations only when it
  runs with \<open>is_inference\<close>: there the duration of every token whose word-boundary
  feature is 1 is set to 0. The inference architecture does the same, and the scaling of
  the durations that follows leaves those zeros in place, so the durations it returns
  are 0 at these tokens. In training mode the training architecture applies no override
  and returns the output of the duration predictor as it is.
\<close>

theorem word_boundary_duration_zero:
  assumes "text_ok lookup ts"
    and "length duration_predictor_inference = length ts"
    and "length (gold_or gold_pitch pp) = length ts"
    and "length (gold_or gold_energy ep) = length ts"
    and "length (gold_or gold_durations dp) = length ts"
    and "0 < duration_scaling_factor"
  shows "(\<exists>d. forward_durations lookup True ts duration_predictor_inference raw = Inr (Frames d) \<and>
              length d = length ts \<and>
              (\<forall>j < length ts. flag lookup (ts ! j) ''word-boundary'' = 1 \<longrightarrow> d ! j = 0)) \<and>
         (\<exists>p e d. controls lookup ts pp ep dp gold_pitch gold_energy gold_durations
                     duration_scaling_factor pitch_variance_scale energy_variance_scale pause =
                   Inr (p, e, d) \<and>
              length d = length ts \<and>
              (\<forall>j < length ts. flag lookup (ts ! j) ''word-boundary'' = 1 \<longrightarrow> d ! j = 0)) \<and>
         forward_durations lookup False ts duration_predictor_inference raw = Inr (Raw raw)"
proof -
  have b: "0 + length ts \<le> length duration_predictor_inference" using assms(2) by simp
  from word_boundary_loop_ok[OF text_ok_wb_ok[OF assms(1)] b]
  obtain d where "word_boundary_loop lookup 0 ts duration_predictor_inference = Inr d"
    and "length d = length duration_predictor_inference"
    and "\<forall>j < length ts.
           d ! (0 + j) = (if flag lookup (ts ! j) ''word-boundary'' = 1 then 0
                          else duration_predictor_inference ! (0 + j))"
    by blast
  then have 1: "\<exists>d. forward_durations lookup True ts duration_predictor_inference raw = Inr (Frames d) \<and>
              length d = length ts \<and>
              (\<forall>j < length ts. flag lookup (ts ! j) ''word-boundary'' = 1 \<longrightarrow> d ! j = 0)"
    using assms(2) by (simp add: forward_durations_def)
  from overrides_ok[OF assms(1,3,4,5), of pause] obtain p e d where
    o: "overrides lookup ts pp ep dp gold_pitch gold_energy gold_durations pause = Inr (p, e, d)"
    and l: "length d = length ts"
    and z: "\<forall>j < length ts. flag lookup (ts ! j) ''word-boundary'' = 1 \<longrightarrow> d ! j = 0"
    by blast
  from scale_durations_ok[OF assms(6), of d] obtain d' where
    sd: "scale_durations d duration_scaling_factor = Inr d'" and l': "length d' = length d"
    by blast
  have z': "\<forall>j < length ts. flag lookup (ts ! j) ''word-boundary'' = 1 \<longrightarrow> d' ! j = 0"
    using scale_durations_zero[OF sd] z l by simp
  have "controls lookup ts pp ep dp gold_pitch gold_energy gold_durations
          duration_scaling_factor pitch_variance_scale energy_variance_scale pause =
        Inr (scale_variance p pitch_variance_scale, scale_variance e energy_variance_scale, d')"
    using o sd by (simp add: controls_def)
  then have 2: "\<exists>p e d. controls lookup ts pp ep dp gold_pitch gold_energy gold_durations
                     duration_scaling_factor pitch_variance_scale energy_variance_scale pause =
                   Inr (p, e, d) \<and>
              length d = length ts \<and>
              (\<forall>j < length ts. flag lookup (ts ! j) ''word-boundary'' = 1 \<longrightarrow> d ! j = 0)"
    using l l' z' by simp
  have 3: "forward_durations lookup False ts duration_predictor_inference raw = Inr (Raw raw)"
    by (simp add: forward_durations_def)
  from 1 2 3 show ?thesis by blast
qed

lemma demo_forward_inference:
  "forward_durations demo_lookup True demo_text [3, 4, 5, 6] [1, 1, 1, 1] = Inr (Frames [3, 4, 0, 6])"
  by (simp add: forward_durations_def getitem_def setitem_def demo_lookup_def demo_text_def)

lemma demo_controls:
  "controls demo_lookup demo_text [0, 0, 0, 0] [0, 0, 0, 0] [3, 4, 5, 6] None None None 2 1 1 1 =
     Inr (Some [0, 0, 0, 0], Some [0, 0, 0, 0], [6, 8, 0, 12])"
  by (simp add: controls_def overrides_def gold_or_def override_token_def getitem_def
      setitem_def scale_durations_def scale_variance_def torch_round_def demo_lookup_def
      demo_text_def Let_def)

text \<open>
  C4 as the claim words it fails in training mode: for a text of one token with the
  word-boundary feature set, the forward pass in training mode returns the duration that
  the predictor gave, here 3/2, not 0.
\<close>

theorem word_boundary_duration_zero_counterexample:
  "flag demo_lookup [0, 0, 1, 0] ''word-boundary'' = 1 \<and>
   forward_durations demo_lookup False [[0, 0, 1, 0]] [3] [3 / 2] = Inr (Raw [3 / 2])"
  by (simp add: flag_def demo_lookup_def forward_durations_def)


theorem word_boundary_duration_zero_witness:
  "text_ok demo_lookup demo_text \<and> (0::real) < 2 \<and>
   forward_durations demo_lookup True demo_text [3, 4, 5, 6] [1, 1, 1, 1] = Inr (Frames [3, 4, 0, 6]) \<and>
   controls demo_lookup demo_text [0, 0, 0, 0] [0, 0, 0, 0] [3, 4, 5, 6] None None None 2 1 1 1 =
     Inr (Some [0, 0, 0, 0], Some [0, 0, 0, 0], [6, 8, 0, 12])"
  using word_boundary_duration_zero[OF demo_text_ok, of "[3, 4, 5, 6]" None "[0, 0, 0, 0]" None "[0, 0, 0, 0]" None
      "[3, 4, 5, 6]" 2 "[1, 1, 1, 1]" 1 1 1]
    demo_text_ok demo_forward_inference demo_controls
  by simp


subsection \<open>Scaling the variance\<close>

lemma clip_fold:
  fixes xs :: "real list"
  assumes "k \<le> length xs"
  shows "length (fold (\<lambda>i s. if s ! i < 0 then s[i := 0] else s) [0..<k] xs) = length xs \<and>
         (\<forall>i < length xs.
            fold (\<lambda>i s. if s ! i < 0 then s[i := 0] else s) [0..<k] xs ! i =
              (if i < k then max 0 (xs ! i) else xs ! i))"
  using assms
proof (induction k)
  case 0
  then show ?case by simp
next
  case (Suc k)
  let ?f = "\<lambda>i s. if s ! i < (0::real) then s[i := 0] else s"
  let ?s = "fold ?f [0..<k] xs"
  from Suc have k: "k < length xs" by simp
  with Suc.IH have l: "length ?s = length xs"
    and n: "\<And>i. i < length xs \<Longrightarrow> ?s ! i = (if i < k then max 0 (xs ! i) else xs ! i)"
    by simp_all
  have step: "fold ?f [0..<Suc k] xs = ?f k ?s" by simp
  have sk: "?s ! k = xs ! k" using n[OF k] by simp
  show ?case
  proof (intro conjI allI impI)
    show "length (fold ?f [0..<Suc k] xs) = length xs"
      unfolding step using l by simp
  next
    fix i assume i: "i < length xs"
    show "fold ?f [0..<Suc k] xs ! i = (if i < Suc k then max 0 (xs ! i) else xs ! i)"
    proof (cases "i = k")
      case True
      then show ?thesis unfolding step using sk l k by (simp add: max_def)
    next
      case False
      then have "(?f k ?s) ! i = ?s ! i" by simp
      then show ?thesis unfolding step using n[OF i] False by (simp add: less_Suc_eq)
    qed
  qed
qed

lemma clip_negative_eq: "clip_negative xs = map (max 0) xs"
  using clip_fold[of "length xs" xs]
  by (intro nth_equalityI) (simp_all add: clip_negative_def)

lemma scale_variance_eq:
  assumes "scale \<noteq> 1" and "\<exists>x \<in> set xs. x \<noteq> 0"
  shows "scale_variance xs scale =
           Some (map (\<lambda>x. max 0 (nonzero_mean xs + scale * (x - nonzero_mean xs))) xs)"
proof -
  from assms(2) have "filter (\<lambda>x. x \<noteq> 0) xs \<noteq> []"
    by (simp add: filter_empty_conv)
  then show ?thesis
    using assms(1)
    by (simp add: scale_variance_def Let_def clip_negative_eq nonzero_mean_def o_def
        algebra_simps)
qed

lemma selected_map:
  "map snd (filter (\<lambda>(x, y). P x) (zip xs (map g xs))) = map g (filter P xs)"
  by (induction xs) simp_all

lemma sum_list_affine:
  "sum_list (map (\<lambda>x. a + s * (x - a)) zs) =
     real (length zs) * a + s * (sum_list zs - real (length zs) * a)"
  by (induction zs) (simp_all add: algebra_simps)


lemma nonzero_mean_preserved:
  assumes "\<exists>x \<in> set xs. x \<noteq> 0"
    and "\<forall>x \<in> set xs. x \<noteq> 0 \<longrightarrow> 0 \<le> nonzero_mean xs + scale * (x - nonzero_mean xs)"
  shows "mean_where_nonzero xs
           (map (\<lambda>x. max 0 (nonzero_mean xs + scale * (x - nonzero_mean xs))) xs) =
         nonzero_mean xs"
proof -
  let ?a = "nonzero_mean xs"
  let ?nz = "filter (\<lambda>x. x \<noteq> 0) xs"
  have n: "?nz \<noteq> []" using assms(1) by (simp add: filter_empty_conv)
  then have pos: "0 < real (length ?nz)" by simp
  have s: "sum_list ?nz = real (length ?nz) * ?a"
    using pos by (simp add: nonzero_mean_def)
  have meq: "map (\<lambda>x. max 0 (?a + scale * (x - ?a))) ?nz = map (\<lambda>x. ?a + scale * (x - ?a)) ?nz"
    using assms(2) by (intro map_cong) (auto simp: max_def)
  have "sum_list (map (\<lambda>x. max 0 (?a + scale * (x - ?a))) ?nz) =
        sum_list (map (\<lambda>x. ?a + scale * (x - ?a)) ?nz)"
    by (simp only: meq)
  also have "\<dots> = real (length ?nz) * ?a"
    using sum_list_affine[of ?a scale ?nz] s by simp
  finally have "sum_list (map (\<lambda>x. max 0 (?a + scale * (x - ?a))) ?nz) = real (length ?nz) * ?a" .
  then show ?thesis
    using pos by (simp add: mean_where_nonzero_def selected_map Let_def)
qed

text \<open>
  C5, as the code has it. With the scale factor 1 the transform returns its input. With
  any other scale factor and a curve that has an entry other than zero, every entry \<open>x\<close>
  becomes \<open>max 0 (a + s * (x - a))\<close>, where \<open>a\<close> is the mean of the entries of the input
  that are not zero: the deviation from that mean is multiplied by the scale factor and
  a negative result is clipped to zero, so no entry of the result is negative. The mean
  of the entries that were not zero is kept provided none of them is clipped.
\<close>

theorem variance_scaling:
  "scale_variance xs 1 = Some xs \<and>
   (scale \<noteq> 1 \<and> (\<exists>x \<in> set xs. x \<noteq> 0) \<longrightarrow>
      (\<exists>ys. scale_variance xs scale = Some ys \<and> length ys = length xs \<and>
         (\<forall>i < length xs.
            ys ! i = max 0 (nonzero_mean xs + scale * (xs ! i - nonzero_mean xs)) \<and> 0 \<le> ys ! i) \<and>
         ((\<forall>x \<in> set xs. x \<noteq> 0 \<longrightarrow> 0 \<le> nonzero_mean xs + scale * (x - nonzero_mean xs)) \<longrightarrow>
            mean_where_nonzero xs ys = nonzero_mean xs)))"
proof (intro conjI impI)
  show "scale_variance xs 1 = Some xs" by (simp add: scale_variance_def)
next
  assume a: "scale \<noteq> 1 \<and> (\<exists>x \<in> set xs. x \<noteq> 0)"
  let ?ys = "map (\<lambda>x. max 0 (nonzero_mean xs + scale * (x - nonzero_mean xs))) xs"
  have "scale_variance xs scale = Some ?ys" using a by (simp add: scale_variance_eq)
  moreover have "length ?ys = length xs" by simp
  moreover have "\<forall>i < length xs.
       ?ys ! i = max 0 (nonzero_mean xs + scale * (xs ! i - nonzero_mean xs)) \<and> 0 \<le> ?ys ! i"
    by simp
  moreover have "(\<forall>x \<in> set xs. x \<noteq> 0 \<longrightarrow> 0 \<le> nonzero_mean xs + scale * (x - nonzero_mean xs)) \<longrightarrow>
            mean_where_nonzero xs ?ys = nonzero_mean xs"
    using a nonzero_mean_preserved[of xs scale] by blast
  ultimately show "\<exists>ys. scale_variance xs scale = Some ys \<and> length ys = length xs \<and>
         (\<forall>i < length xs.
            ys ! i = max 0 (nonzero_mean xs + scale * (xs ! i - nonzero_mean xs)) \<and> 0 \<le> ys ! i) \<and>
         ((\<forall>x \<in> set xs. x \<noteq> 0 \<longrightarrow> 0 \<le> nonzero_mean xs + scale * (x - nonzero_mean xs)) \<longrightarrow>
            mean_where_nonzero xs ys = nonzero_mean xs)"
    by blast
qed

lemma demo_scale: "scale_variance [4, 0, 8] 2 = Some [2, 0, 10]"
  by (simp add: scale_variance_def clip_negative_eq Let_def)

theorem variance_scaling_witness:
  "scale_variance [4, 0, 8] 1 = Some [4, 0, 8] \<and>
   scale_variance [4, 0, 8] 2 = Some [2, 0, 10] \<and>
   nonzero_mean [4, 0, 8] = 6 \<and>
   mean_where_nonzero [4, 0, 8] [2, 0, 10] = 6"
  using variance_scaling[of "[4, 0, 8]" 2] demo_scale
  by (simp add: nonzero_mean_def mean_where_nonzero_def)

text \<open>
  C5 as the claim words it fails when an entry is clipped: the curve \<open>[1, 9]\<close> has the
  mean 5, and with the scale factor 2 it becomes \<open>[0, 13]\<close>, which has the mean 13/2.
\<close>

theorem variance_scaling_counterexample:
  "scale_variance [1, 9] 2 = Some [0, 13] \<and> nonzero_mean [1, 9] = 5 \<and>
   mean_where_nonzero [1, 9] [0, 13] = 13 / 2"
  by (simp add: scale_variance_def clip_negative_eq Let_def nonzero_mean_def
      mean_where_nonzero_def)

text \<open>A curve of zeros has no entry to take the mean of.\<close>

lemma scale_variance_all_zero: "scale_variance [0, 0] 2 = None"
  by (simp add: scale_variance_def)

subsection \<open>The overrides in the forward call\<close>

lemma scale_variance_zeros:
  assumes "scale \<noteq> 1" and "\<forall>x \<in> set xs. x = 0"
  shows "scale_variance xs scale = None"
proof -
  from assms(2) have "filter (\<lambda>x. x \<noteq> 0) xs = []"
    by (simp add: filter_empty_conv)
  then show ?thesis using assms(1) by (simp add: scale_variance_def)
qed

text \<open>
  What the scaling of the variance makes of an entry 0 of a curve: with a scale other
  than 1 and a curve that has an entry other than zero it becomes
  \<open>max 0 ((1 - scale) * a)\<close>, \<open>a\<close> being the mean of the entries that are not zero.
\<close>

lemma scale_variance_entries:
  assumes "scale \<noteq> 1" and "\<exists>x \<in> set xs. x \<noteq> 0"
  shows "\<exists>ys. scale_variance xs scale = Some ys \<and> length ys = length xs \<and>
           (\<forall>j < length xs.
              ys ! j = max 0 (nonzero_mean xs + scale * (xs ! j - nonzero_mean xs)) \<and>
              (xs ! j = 0 \<longrightarrow> ys ! j = max 0 ((1 - scale) * nonzero_mean xs)))"
proof -
  let ?ys = "map (\<lambda>x. max 0 (nonzero_mean xs + scale * (x - nonzero_mean xs))) xs"
  have "scale_variance xs scale = Some ?ys" using assms by (simp add: scale_variance_eq)
  moreover have "length ?ys = length xs" by simp
  moreover have "\<forall>j < length xs.
            ?ys ! j = max 0 (nonzero_mean xs + scale * (xs ! j - nonzero_mean xs)) \<and>
            (xs ! j = 0 \<longrightarrow> ?ys ! j = max 0 ((1 - scale) * nonzero_mean xs))"
    by (simp add: algebra_simps)
  ultimately show ?thesis by blast
qed

lemma controls_eq:
  assumes "overrides lookup ts pp ep dp gold_pitch gold_energy gold_durations pause = Inr (p, e, d)"
    and "scale_durations d duration_scaling_factor = Inr d'"
  shows "controls lookup ts pp ep dp gold_pitch gold_energy gold_durations
           duration_scaling_factor pitch_variance_scale energy_variance_scale pause =
         Inr (scale_variance p pitch_variance_scale, scale_variance e energy_variance_scale, d')"
  using assms by (simp add: controls_def)

lemma demo_controls_gold:
  "controls demo_lookup demo_text [0, 0, 0, 0] [0, 0, 0, 0] [1, 1, 1, 1]
     (Some [5, 6, 7, 8]) (Some [1, 2, 3, 4]) (Some [3, 4, 5, 6]) 2 1 (1 / 2) 1 =
   Inr (Some [5, 0, 0, 0], Some [5 / 4, 7 / 4, 3 / 4, 3 / 4], [6, 8, 0, 12])"
proof -
  have d: "scale_durations [3, 4, 0, 6] 2 = Inr [6, 8, 0, 12]"
    by (simp add: scale_durations_def torch_round_def Let_def)
  have p: "scale_variance [5, 0, 0, 0] 1 = Some [5, 0, 0, 0]"
    by (simp add: scale_variance_def)
  have e: "scale_variance [1, 2, 0, 0] (1 / 2) = Some [5 / 4, 7 / 4, 3 / 4, 3 / 4]"
    by (simp add: scale_variance_def clip_negative_eq Let_def)
  show ?thesis
    unfolding controls_eq[OF demo_overrides d] p e ..
qed

text \<open>
  C10, as the code has it. In the forward call of the inference architecture the
  overrides run on the values that are left after the gold values have taken the place
  of the predictions, and the scaling of durations and variance runs after the
  overrides. Whatever pitch, energy and durations the caller gives, after the overrides
  the pitch \<open>p\<close> is 0 at every token whose voiced feature is 0 and the energy \<open>e\<close> is 0 at
  every token whose phoneme feature is 0, the given values staying in place at all other
  tokens, and the duration is 0 at every token whose word-boundary feature is 1. The
  durations that the call goes on with keep those zeros under a positive duration
  scaling factor. The pitch and energy curves that the call goes on with are \<open>p\<close> and \<open>e\<close>
  after the scaling of the variance: \<open>p\<close> and \<open>e\<close> themselves for the scale 1; for any
  other scale and an overridden curve that has an entry other than zero, curves in which
  every overridden entry is \<open>max 0 ((1 - scale) * a)\<close>, \<open>a\<close> being the mean of the entries
  of the overridden curve that are not zero; and for any other scale and an overridden
  curve of zeros no curve at all, every entry being not a number.
\<close>

theorem gold_values_overridden:
  assumes "text_ok lookup ts"
    and "length (gold_or gold_pitch pp) = length ts"
    and "length (gold_or gold_energy ep) = length ts"
    and "length (gold_or gold_durations dp) = length ts"
    and "0 < duration_scaling_factor"
  shows "\<exists>p e d predicted_durations.
           overrides lookup ts pp ep dp gold_pitch gold_energy gold_durations pause = Inr (p, e, d) \<and>
           controls lookup ts pp ep dp gold_pitch gold_energy gold_durations
             duration_scaling_factor pitch_variance_scale energy_variance_scale pause =
             Inr (scale_variance p pitch_variance_scale,
                  scale_variance e energy_variance_scale, predicted_durations) \<and>
           length p = length ts \<and> length e = length ts \<and> length d = length ts \<and>
           length predicted_durations = length ts \<and>
           (\<forall>j < length ts.
              p ! j = (if flag lookup (ts ! j) ''voiced'' = 0 then 0
                       else gold_or gold_pitch pp ! j) \<and>
              e ! j = (if flag lookup (ts ! j) ''phoneme'' = 0 then 0
                       else gold_or gold_energy ep ! j) \<and>
              (flag lookup (ts ! j) ''word-boundary'' = 1 \<longrightarrow>
                 d ! j = 0 \<and> predicted_durations ! j = 0)) \<and>
           (pitch_variance_scale = 1 \<longrightarrow> scale_variance p pitch_variance_scale = Some p) \<and>
           (energy_variance_scale = 1 \<longrightarrow> scale_variance e energy_variance_scale = Some e) \<and>
           (pitch_variance_scale \<noteq> 1 \<and> (\<exists>x \<in> set p. x \<noteq> 0) \<longrightarrow>
              (\<exists>ys. scale_variance p pitch_variance_scale = Some ys \<and> length ys = length ts \<and>
                 (\<forall>j < length ts. flag lookup (ts ! j) ''voiced'' = 0 \<longrightarrow>
                    ys ! j = max 0 ((1 - pitch_variance_scale) * nonzero_mean p)))) \<and>
           (energy_variance_scale \<noteq> 1 \<and> (\<exists>x \<in> set e. x \<noteq> 0) \<longrightarrow>
              (\<exists>ys. scale_variance e energy_variance_scale = Some ys \<and> length ys = length ts \<and>
                 (\<forall>j < length ts. flag lookup (ts ! j) ''phoneme'' = 0 \<longrightarrow>
                    ys ! j = max 0 ((1 - energy_variance_scale) * nonzero_mean e)))) \<and>
           (pitch_variance_scale \<noteq> 1 \<and> (\<forall>x \<in> set p. x = 0) \<longrightarrow>
              scale_variance p pitch_variance_scale = None) \<and>
           (energy_variance_scale \<noteq> 1 \<and> (\<forall>x \<in> set e. x = 0) \<longrightarrow>
              scale_variance e energy_variance_scale = None)"
proof -
  from overrides_ok[OF assms(1,2,3,4), of pause] obtain p e d where
    o: "overrides lookup ts pp ep dp gold_pitch gold_energy gold_durations pause = Inr (p, e, d)"
    and l: "length p = length ts" "length e = length ts" "length d = length ts"
    and each: "\<forall>j < length ts.
              p ! j = (if flag lookup (ts ! j) ''voiced'' = 0 then 0
                       else gold_or gold_pitch pp ! j) \<and>
              e ! j = (if flag lookup (ts ! j) ''phoneme'' = 0 then 0
                       else gold_or gold_energy ep ! j) \<and>
              (flag lookup (ts ! j) ''word-boundary'' = 1 \<longrightarrow> d ! j = 0)"
    by blast
  from scale_durations_ok[OF assms(5), of d] obtain d' where
    sd: "scale_durations d duration_scaling_factor = Inr d'" and l': "length d' = length d"
    by blast
  have z: "d' ! j = 0" if "j < length ts" "d ! j = 0" for j
    using scale_durations_zero[OF sd _ that(2)] that(1) l(3) by simp
  have each': "\<forall>j < length ts.
              p ! j = (if flag lookup (ts ! j) ''voiced'' = 0 then 0
                       else gold_or gold_pitch pp ! j) \<and>
              e ! j = (if flag lookup (ts ! j) ''phoneme'' = 0 then 0
                       else gold_or gold_energy ep ! j) \<and>
              (flag lookup (ts ! j) ''word-boundary'' = 1 \<longrightarrow> d ! j = 0 \<and> d' ! j = 0)"
    using each z by blast
  have l'': "length d' = length ts" using l' l(3) by simp
  note c = controls_eq[OF o sd, of pitch_variance_scale energy_variance_scale]
  have p1: "pitch_variance_scale = 1 \<longrightarrow> scale_variance p pitch_variance_scale = Some p"
    by (simp add: scale_variance_def)
  have e1: "energy_variance_scale = 1 \<longrightarrow> scale_variance e energy_variance_scale = Some e"
    by (simp add: scale_variance_def)
  have pz: "p ! j = 0" if "j < length ts" "flag lookup (ts ! j) ''voiced'' = 0" for j
    using each that by simp
  have ez: "e ! j = 0" if "j < length ts" "flag lookup (ts ! j) ''phoneme'' = 0" for j
    using each that by simp
  have p2: "pitch_variance_scale \<noteq> 1 \<and> (\<exists>x \<in> set p. x \<noteq> 0) \<longrightarrow>
              (\<exists>ys. scale_variance p pitch_variance_scale = Some ys \<and> length ys = length ts \<and>
                 (\<forall>j < length ts. flag lookup (ts ! j) ''voiced'' = 0 \<longrightarrow>
                    ys ! j = max 0 ((1 - pitch_variance_scale) * nonzero_mean p)))"
  proof (intro impI, elim conjE)
    assume a: "pitch_variance_scale \<noteq> 1" "\<exists>x \<in> set p. x \<noteq> 0"
    from scale_variance_entries[OF a] obtain ys where
      s: "scale_variance p pitch_variance_scale = Some ys" and ly: "length ys = length p"
      and y: "\<And>j. j < length p \<Longrightarrow> p ! j = 0 \<Longrightarrow>
                 ys ! j = max 0 ((1 - pitch_variance_scale) * nonzero_mean p)"
      by blast
    have "\<forall>j < length ts. flag lookup (ts ! j) ''voiced'' = 0 \<longrightarrow>
            ys ! j = max 0 ((1 - pitch_variance_scale) * nonzero_mean p)"
      using y pz l(1) by simp
    with s ly l(1) show "\<exists>ys. scale_variance p pitch_variance_scale = Some ys \<and>
        length ys = length ts \<and>
        (\<forall>j < length ts. flag lookup (ts ! j) ''voiced'' = 0 \<longrightarrow>
           ys ! j = max 0 ((1 - pitch_variance_scale) * nonzero_mean p))"
      by simp
  qed
  have e2: "energy_variance_scale \<noteq> 1 \<and> (\<exists>x \<in> set e. x \<noteq> 0) \<longrightarrow>
              (\<exists>ys. scale_variance e energy_variance_scale = Some ys \<and> length ys = length ts \<and>
                 (\<forall>j < length ts. flag lookup (ts ! j) ''phoneme'' = 0 \<longrightarrow>
                    ys ! j = max 0 ((1 - energy_variance_scale) * nonzero_mean e)))"
  proof (intro impI, elim conjE)
    assume a: "energy_variance_scale \<noteq> 1" "\<exists>x \<in> set e. x \<noteq> 0"
    from scale_variance_entries[OF a] obtain ys where
      s: "scale_variance e energy_variance_scale = Some ys" and ly: "length ys = length e"
      and y: "\<And>j. j < length e \<Longrightarrow> e ! j = 0 \<Longrightarrow>
                 ys ! j = max 0 ((1 - energy_variance_scale) * nonzero_mean e)"
      by blast
    have "\<forall>j < length ts. flag lookup (ts ! j) ''phoneme'' = 0 \<longrightarrow>
            ys ! j = max 0 ((1 - energy_variance_scale) * nonzero_mean e)"
      using y ez l(2) by simp
    with s ly l(2) show "\<exists>ys. scale_variance e energy_variance_scale = Some ys \<and>
        length ys = length ts \<and>
        (\<forall>j < length ts. flag lookup (ts ! j) ''phoneme'' = 0 \<longrightarrow>
           ys ! j = max 0 ((1 - energy_variance_scale) * nonzero_mean e))"
      by simp
  qed
  have p3: "pitch_variance_scale \<noteq> 1 \<and> (\<forall>x \<in> set p. x = 0) \<longrightarrow>
              scale_variance p pitch_variance_scale = None"
    using scale_variance_zeros[of pitch_variance_scale p] by blast
  have e3: "energy_variance_scale \<noteq> 1 \<and> (\<forall>x \<in> set e. x = 0) \<longrightarrow>
              scale_variance e energy_variance_scale = None"
    using scale_variance_zeros[of energy_variance_scale e] by blast
  show ?thesis
    by (intro exI[of _ p] exI[of _ e] exI[of _ d] exI[of _ d'] conjI)
      (fact o c l l'' each' p1 e1 p2 e2 p3 e3)+
qed

theorem gold_values_overridden_witness:
  "text_ok demo_lookup demo_text \<and> (0::real) < 2 \<and>
   overrides demo_lookup demo_text [0, 0, 0, 0] [0, 0, 0, 0] [1, 1, 1, 1]
     (Some [5, 6, 7, 8]) (Some [1, 2, 3, 4]) (Some [3, 4, 5, 6]) 1 =
   Inr ([5, 0, 0, 0], [1, 2, 0, 0], [3, 4, 0, 6]) \<and>
   controls demo_lookup demo_text [0, 0, 0, 0] [0, 0, 0, 0] [1, 1, 1, 1]
     (Some [5, 6, 7, 8]) (Some [1, 2, 3, 4]) (Some [3, 4, 5, 6]) 2 1 (1 / 2) 1 =
   Inr (Some [5, 0, 0, 0], Some [5 / 4, 7 / 4, 3 / 4, 3 / 4], [6, 8, 0, 12])"
  using gold_values_overridden[OF demo_text_ok, of "Some [5, 6, 7, 8]" "[0, 0, 0, 0]" "Some [1, 2, 3, 4]"
      "[0, 0, 0, 0]" "Some [3, 4, 5, 6]" "[1, 1, 1, 1]" 2 1 1 "1 / 2"]
    demo_text_ok demo_overrides demo_controls_gold
  by simp

text \<open>
  C10 as the claim words it fails when the variance of the pitch is scaled. The caller
  gives the pitch 5, 6, 7, 8 for the four tokens, of which only the first is voiced. The
  overrides make it 5, 0, 0, 0, and with the pitch variance scale 1/2 the call goes on
  with, and returns, the pitch 5, 5/2, 5/2, 5/2: the pitch at the three tokens that are
  not voiced is not 0.
\<close>

theorem gold_values_overridden_counterexample:
  "flag demo_lookup (demo_text ! 1) ''voiced'' = 0 \<and>
   flag demo_lookup (demo_text ! 2) ''voiced'' = 0 \<and>
   flag demo_lookup (demo_text ! 3) ''voiced'' = 0 \<and>
   controls demo_lookup demo_text [0, 0, 0, 0] [0, 0, 0, 0] [1, 1, 1, 1]
     (Some [5, 6, 7, 8]) (Some [1, 2, 3, 4]) (Some [3, 4, 5, 6]) 1 (1 / 2) 1 1 =
   Inr (Some [5, 5 / 2, 5 / 2, 5 / 2], Some [1, 2, 0, 0], [3, 4, 0, 6])"
proof -
  have d: "scale_durations [3, 4, 0, 6] 1 = Inr [3, 4, 0, 6]"
    by (simp add: scale_durations_def)
  have p: "scale_variance [5, 0, 0, 0] (1 / 2) = Some [5, 5 / 2, 5 / 2, 5 / 2]"
    by (simp add: scale_variance_def clip_negative_eq Let_def)
  have e: "scale_variance [1, 2, 0, 0] 1 = Some [1, 2, 0, 0]"
    by (simp add: scale_variance_def)
  have c: "controls demo_lookup demo_text [0, 0, 0, 0] [0, 0, 0, 0] [1, 1, 1, 1]
     (Some [5, 6, 7, 8]) (Some [1, 2, 3, 4]) (Some [3, 4, 5, 6]) 1 (1 / 2) 1 1 =
   Inr (Some [5, 5 / 2, 5 / 2, 5 / 2], Some [1, 2, 0, 0], [3, 4, 0, 6])"
    unfolding controls_eq[OF demo_overrides d] p e ..
  have f: "flag demo_lookup (demo_text ! 1) ''voiced'' = 0"
    "flag demo_lookup (demo_text ! 2) ''voiced'' = 0"
    "flag demo_lookup (demo_text ! 3) ''voiced'' = 0"
    by (simp_all add: flag_def demo_lookup_def demo_text_def)
  from f c show ?thesis by (intro conjI)
qed

subsection \<open>The inputs of the classifier heads\<close>

lemma same_shape_refl [simp]: "same_shape t t"
  by (simp add: same_shape_def)

lemma same_shape_sym: "same_shape t u \<Longrightarrow> same_shape u t"
  by (simp add: same_shape_def)

lemma same_shape_trans: "same_shape t u \<Longrightarrow> same_shape u v \<Longrightarrow> same_shape t v"
  by (simp add: same_shape_def)

lemma same_shape_length: "same_shape t u \<Longrightarrow> length t = length u"
  unfolding same_shape_def by (rule map_eq_imp_length_eq)

lemma cat2_shape:
  assumes "same_shape t u"
  shows "same_shape t (cat2 t u)"
proof -
  have "length t = length u" using assms by (rule same_shape_length)
  then show ?thesis using assms
    by (induction t u rule: list_induct2) (simp_all add: same_shape_def cat2_def)
qed

lemma map2_append_width:
  assumes "\<forall>x \<in> set s. length x = a" and "\<forall>y \<in> set s'. length y = b"
  shows "\<forall>frame \<in> set (map2 (@) s s'). length frame = a + b"
  using assms by (induction s s' rule: list_induct2') simp_all

lemma cat2_width:
  assumes "same_shape t u" and "has_width a t" and "has_width b u"
  shows "has_width (a + b) (cat2 t u)"
proof -
  have "length t = length u" using assms(1) by (rule same_shape_length)
  then show ?thesis using assms
  proof (induction t u rule: list_induct2)
    case Nil
    then show ?case by (simp add: has_width_def cat2_def)
  next
    case (Cons s t s' u)
    have "\<forall>frame \<in> set (map2 (@) s s'). length frame = a + b"
      using Cons.prems(2,3) by (intro map2_append_width) (simp_all add: has_width_def)
    moreover have "has_width (a + b) (cat2 t u)"
      using Cons by (simp add: same_shape_def has_width_def)
    ultimately show ?case by (simp add: has_width_def cat2_def)
  qed
qed

lemma foldl_cat2:
  assumes "\<forall>u \<in> set ts. same_shape t u \<and> has_width c u" and "has_width a t"
  shows "same_shape t (foldl cat2 t ts) \<and> has_width (a + length ts * c) (foldl cat2 t ts)"
  using assms
proof (induction ts arbitrary: t a)
  case Nil
  then show ?case by simp
next
  case (Cons u ts)
  have su: "same_shape t u" and wu: "has_width c u" using Cons.prems(1) by simp_all
  have s1: "same_shape t (cat2 t u)" using su by (rule cat2_shape)
  have w1: "has_width (a + c) (cat2 t u)" using su Cons.prems(2) wu by (rule cat2_width)
  have "\<forall>v \<in> set ts. same_shape (cat2 t u) v \<and> has_width c v"
    using Cons.prems(1) s1 by (auto intro: same_shape_trans same_shape_sym)
  from Cons.IH[OF this w1]
  have "same_shape (cat2 t u) (foldl cat2 (cat2 t u) ts)"
    and "has_width (a + c + length ts * c) (foldl cat2 (cat2 t u) ts)" by simp_all
  then show ?case using s1 by (auto intro: same_shape_trans simp: algebra_simps)
qed

lemma cat_dim2_ok:
  assumes "\<forall>u \<in> set ts. same_shape t u"
  shows "cat_dim2 (t # ts) = Inr (foldl cat2 t ts)"
  using assms by (simp add: cat_dim2_def)

lemma linear_forward_ok:
  assumes "has_width n x"
  shows "\<exists>y. linear_forward (Linear n m w b) x = Inr y \<and> same_shape x y \<and> has_width m y"
proof -
  have "length (affine (Linear n m w b) frame) = m" for frame
    by (simp add: affine_def Linear_def)
  then have "has_width m (map (map (affine (Linear n m w b))) x)"
    by (simp add: has_width_def)
  moreover have "same_shape x (map (map (affine (Linear n m w b))) x)"
    by (simp add: same_shape_def o_def)
  ultimately show ?thesis using assms by (simp add: linear_forward_def Linear_def)
qed


lemma classify_train:
  assumes "has_width att decoded"
    and "N \<le> length chunks"
    and "\<forall>j < N. same_shape decoded (chunks ! j) \<and> has_width c (chunks ! j)"
    and "k \<le> N" and "gold = decoded # take k chunks" and "length ins = k"
  shows "\<exists>pred' ins'.
           classify False
             (map (\<lambda>head. Linear (att + head * c) c (w head) (b head)) [k..<N])
             k chunks gold pred ins = Inr (pred', ins') \<and>
           length ins' = N \<and> take k ins' = ins \<and>
           (\<forall>j. k \<le> j \<and> j < N \<longrightarrow>
              cat_dim2 (decoded # take j chunks) = Inr (ins' ! j) \<and>
              has_width (att + j * c) (ins' ! j))"
  using assms(4,5,6)
proof (induction "N - k" arbitrary: k gold pred ins)
  case 0
  then have "k = N" by simp
  with 0 show ?case by auto
next
  case (Suc d)
  then have kN: "k < N" by simp
  have up: "[k..<N] = k # [Suc k..<N]" using kN by (simp add: upt_rec)
  have kl: "k < length chunks" using kN assms(2) by simp
  have props: "\<forall>u \<in> set (take k chunks). same_shape decoded u \<and> has_width c u"
  proof
    fix u assume "u \<in> set (take k chunks)"
    then obtain j where "j < k" "u = chunks ! j"
      using kl by (auto simp: in_set_conv_nth)
    then show "same_shape decoded u \<and> has_width c u" using assms(3) kN by simp
  qed
  let ?x = "foldl cat2 decoded (take k chunks)"
  have cat: "cat_dim2 gold = Inr ?x"
    unfolding Suc.prems(2) using props by (intro cat_dim2_ok) simp
  have wx: "has_width (att + k * c) ?x"
    using foldl_cat2[OF props assms(1)] kl by simp
  from linear_forward_ok[OF wx, of c "w k" "b k"] obtain y where
    lin: "linear_forward (Linear (att + k * c) c (w k) (b k)) ?x = Inr y" by blast
  have get: "getitem chunks k = Inr (chunks ! k)" using kl by (simp add: getitem_def)
  have gold': "gold @ [chunks ! k] = decoded # take (Suc k) chunks"
    using Suc.prems(2) kl by (simp add: take_Suc_conv_app_nth)
  have d: "d = N - Suc k" using Suc.hyps(2) by simp
  from Suc.hyps(1)[OF d _ gold', of "ins @ [?x]" "pred @ [y]"] kN Suc.prems(3)
  obtain pred' ins' where
    r: "classify False
          (map (\<lambda>head. Linear (att + head * c) c (w head) (b head)) [Suc k..<N])
          (Suc k) chunks (gold @ [chunks ! k]) (pred @ [y]) (ins @ [?x]) = Inr (pred', ins')"
    and l: "length ins' = N" and t: "take (Suc k) ins' = ins @ [?x]"
    and each: "\<And>j. Suc k \<le> j \<and> j < N \<Longrightarrow>
              cat_dim2 (decoded # take j chunks) = Inr (ins' ! j) \<and>
              has_width (att + j * c) (ins' ! j)"
    by auto
  have run: "classify False
             (map (\<lambda>head. Linear (att + head * c) c (w head) (b head)) [k..<N])
             k chunks gold pred ins = Inr (pred', ins')"
    unfolding up using cat lin get r by simp
  have tk: "take k ins' = ins"
  proof -
    have "take k ins' = take k (take (Suc k) ins')" by (simp add: min_def)
    also have "\<dots> = ins" unfolding t using Suc.prems(3) by simp
    finally show ?thesis .
  qed
  have ik: "ins' ! k = ?x"
  proof -
    have "ins' ! k = take (Suc k) ins' ! k" by simp
    also have "\<dots> = ?x" unfolding t using Suc.prems(3)[symmetric] by simp
    finally show ?thesis .
  qed
  have atk: "cat_dim2 (decoded # take k chunks) = Inr (ins' ! k) \<and>
             has_width (att + k * c) (ins' ! k)"
    using cat wx ik Suc.prems(2) by simp
  have all: "cat_dim2 (decoded # take j chunks) = Inr (ins' ! j) \<and>
             has_width (att + j * c) (ins' ! j)" if "k \<le> j \<and> j < N" for j
  proof (cases "j = k")
    case True
    then show ?thesis using atk by simp
  next
    case False
    then have "Suc k \<le> j \<and> j < N" using that by simp
    then show ?thesis by (rule each)
  qed
  show ?case using run l tk all by blast
qed


lemma classify_infer:
  assumes "has_width att decoded"
    and "k \<le> N" and "pred = decoded # ys" and "length ys = k"
    and "\<forall>y \<in> set ys. same_shape decoded y \<and> has_width c y" and "length ins = k"
  shows "\<exists>pred' ins'.
           classify True
             (map (\<lambda>head. Linear (att + head * c) c (w head) (b head)) [k..<N])
             k chunks gold pred ins = Inr (pred', ins') \<and>
           length ins' = N \<and> length pred' = Suc N \<and>
           take (Suc k) pred' = pred \<and> take k ins' = ins \<and>
           (\<forall>j. k \<le> j \<and> j < N \<longrightarrow>
              cat_dim2 (take (Suc j) pred') = Inr (ins' ! j) \<and>
              has_width (att + j * c) (ins' ! j) \<and> has_width c (pred' ! Suc j))"
  using assms(2,3,4,5,6)
proof (induction "N - k" arbitrary: k pred ys ins)
  case 0
  then have "k = N" by simp
  with 0 show ?case by auto
next
  case (Suc d)
  then have kN: "k < N" by simp
  have up: "[k..<N] = k # [Suc k..<N]" using kN by (simp add: upt_rec)
  let ?x = "foldl cat2 decoded ys"
  have cat: "cat_dim2 pred = Inr ?x"
    unfolding Suc.prems(2) using Suc.prems(4) by (intro cat_dim2_ok) simp
  from foldl_cat2[OF Suc.prems(4) assms(1)]
  have sx: "same_shape decoded ?x" and wx: "has_width (att + k * c) ?x"
    using Suc.prems(3) by simp_all
  from linear_forward_ok[OF wx, of c "w k" "b k"] obtain y where
    lin: "linear_forward (Linear (att + k * c) c (w k) (b k)) ?x = Inr y"
    and sy: "same_shape ?x y" and wy: "has_width c y" by blast
  have sdy: "same_shape decoded y" using sx sy by (rule same_shape_trans)
  have d: "d = N - Suc k" using Suc.hyps(2) by simp
  have p': "pred @ [y] = decoded # (ys @ [y])" using Suc.prems(2) by simp
  have ys': "\<forall>z \<in> set (ys @ [y]). same_shape decoded z \<and> has_width c z"
    using Suc.prems(4) sdy wy by simp
  from Suc.hyps(1)[OF d _ p' _ ys', of "ins @ [?x]"] kN Suc.prems(3,5)
  obtain pred' ins' where
    r: "classify True
          (map (\<lambda>head. Linear (att + head * c) c (w head) (b head)) [Suc k..<N])
          (Suc k) chunks gold (pred @ [y]) (ins @ [?x]) = Inr (pred', ins')"
    and l: "length ins' = N" and lp: "length pred' = Suc N"
    and tp: "take (Suc (Suc k)) pred' = pred @ [y]"
    and t: "take (Suc k) ins' = ins @ [?x]"
    and each: "\<And>j. Suc k \<le> j \<and> j < N \<Longrightarrow>
              cat_dim2 (take (Suc j) pred') = Inr (ins' ! j) \<and>
              has_width (att + j * c) (ins' ! j) \<and> has_width c (pred' ! Suc j)"
    by auto
  have run: "classify True
             (map (\<lambda>head. Linear (att + head * c) c (w head) (b head)) [k..<N])
             k chunks gold pred ins = Inr (pred', ins')"
    unfolding up using cat lin r by simp
  have lpred: "length pred = Suc k" using Suc.prems(2,3) by simp
  have tk: "take k ins' = ins"
  proof -
    have "take k ins' = take k (take (Suc k) ins')" by (simp add: min_def)
    also have "\<dots> = ins" unfolding t using Suc.prems(5) by simp
    finally show ?thesis .
  qed
  have tpk: "take (Suc k) pred' = pred"
  proof -
    have "take (Suc k) pred' = take (Suc k) (take (Suc (Suc k)) pred')" by (simp add: min_def)
    also have "\<dots> = pred" unfolding tp using lpred by simp
    finally show ?thesis .
  qed
  have ik: "ins' ! k = ?x"
  proof -
    have "ins' ! k = take (Suc k) ins' ! k" by simp
    also have "\<dots> = ?x" unfolding t using Suc.prems(5)[symmetric] by simp
    finally show ?thesis .
  qed
  have pk: "pred' ! Suc k = y"
  proof -
    have "pred' ! Suc k = take (Suc (Suc k)) pred' ! Suc k" by simp
    also have "\<dots> = y" unfolding tp using lpred[symmetric] by simp
    finally show ?thesis .
  qed
  have atk: "cat_dim2 (take (Suc k) pred') = Inr (ins' ! k) \<and>
             has_width (att + k * c) (ins' ! k) \<and> has_width c (pred' ! Suc k)"
    using cat wx wy ik pk tpk by simp
  have all: "cat_dim2 (take (Suc j) pred') = Inr (ins' ! j) \<and>
             has_width (att + j * c) (ins' ! j) \<and> has_width c (pred' ! Suc j)"
    if "k \<le> j \<and> j < N" for j
  proof (cases "j = k")
    case True
    then show ?thesis using atk by simp
  next
    case False
    then have "Suc k \<le> j \<and> j < N" using that by simp
    then show ?thesis by (rule each)
  qed
  show ?case using run l lp tk tpk all by blast
qed


lemma last_dim_width:
  assumes "has_width n t" and "concat t \<noteq> []"
  shows "last_dim t = n"
proof -
  from assms(2) obtain frame rest where c: "concat t = frame # rest"
    by (cases "concat t") auto
  then have "frame \<in> set (concat t)" by simp
  then have "length frame = n" using assms(1) by (auto simp: has_width_def)
  then show ?thesis using c by (simp add: last_dim_def)
qed

lemma torch_stack_ok:
  assumes "ts \<noteq> []" and "\<forall>u \<in> set ts. map (map length) u = v"
  shows "torch_stack ts = Inr ts"
  using assms by (cases ts) (simp_all add: torch_stack_def)

lemma chunk_shape:
  "same_shape t (map (map (\<lambda>frame. take n (drop m frame))) t)"
  by (simp add: same_shape_def o_def)

lemma chunk_lengths:
  assumes "has_width (N * 8) t" and "j < max 1 N"
  shows "map (map length) (map (map (\<lambda>frame. take 8 (drop (j * 8) frame))) t) =
         map (map (\<lambda>frame. min 8 (N * 8))) t"
proof -
  have e: "min (N * 8 - j * 8) 8 = min 8 (N * 8)"
    using assms(2) by (cases "N = 0") auto
  show ?thesis using assms(1) by (auto simp: has_width_def e)
qed

lemma chunk_width:
  assumes "has_width (N * 8) t" and "j < N"
  shows "has_width 8 (map (map (\<lambda>frame. take 8 (drop (j * 8) frame))) t)"
  using assms by (auto simp: has_width_def)

lemma split_gold:
  assumes "has_width (N * 8) gold" and "concat gold \<noteq> []"
  shows "torch_stack (torch_split gold 8) = Inr (torch_split gold 8)"
    and "N \<le> length (torch_split gold 8)"
    and "\<forall>j < N. same_shape gold (torch_split gold 8 ! j) \<and> has_width 8 (torch_split gold 8 ! j)"
proof -
  have ld: "last_dim gold = N * 8" using assms by (rule last_dim_width)
  have m: "max 1 ((last_dim gold + 8 - 1) div 8) = max 1 N" unfolding ld by simp
  have sp: "torch_split gold 8 =
      map (\<lambda>j. map (map (\<lambda>frame. take 8 (drop (j * 8) frame))) gold) [0..<max 1 N]"
    unfolding torch_split_def m ..
  show "N \<le> length (torch_split gold 8)" unfolding sp by simp
  have "\<forall>u \<in> set (torch_split gold 8).
          map (map length) u = map (map (\<lambda>frame. min 8 (N * 8))) gold"
    unfolding sp using chunk_lengths[OF assms(1)] by auto
  moreover have "torch_split gold 8 \<noteq> []" unfolding sp by simp
  ultimately show "torch_stack (torch_split gold 8) = Inr (torch_split gold 8)"
    by (intro torch_stack_ok) auto
  show "\<forall>j < N. same_shape gold (torch_split gold 8 ! j) \<and> has_width 8 (torch_split gold 8 ! j)"
    unfolding sp using chunk_width[OF assms(1)] by (simp add: chunk_shape)
qed

lemma codebook_loop_inputs:
  "snd (snd (codebook_loop layers decoded upsampled (cv, pf, ins))) =
     ins @ replicate (length layers) decoded"
proof (induction layers arbitrary: cv pf ins)
  case Nil
  then show ?case by simp
next
  case (Cons layer layers)
  obtain dec proj flow where l: "layer = (dec, proj, flow)" by (cases layer) auto
  show ?case unfolding l by (simp add: Let_def Cons.IH replicate_app_Cons_same)
qed


text \<open>
  C1, as the code has it. Let the decoder output have frames of \<open>attention_dimension\<close>
  features. In the training architecture, for every number of codebooks \<open>N\<close>, head \<open>k\<close>
  is applied to the concatenation along the feature axis, in increasing order, of the
  decoder output and of codebooks \<open>0\<close> to \<open>k - 1\<close>. In training mode these are the chunks
  of the gold frames, which are cut at a width of 8, so that with a codebook dimension of
  8 and gold frames of \<open>N * 8\<close> features the input of head \<open>k\<close> has
  \<open>attention_dimension + k * 8\<close> features. In its inference mode they are the outputs of
  the heads before, of \<open>codebook_dim\<close> features each, and the input of head \<open>k\<close> has
  \<open>attention_dimension + k * codebook_dim\<close> features. In the inference architecture
  every codebook decoder is applied to the decoder output alone.
\<close>

theorem head_inputs_chain:
  assumes "has_width att decoded"
  shows "(same_shape decoded gold \<and> has_width (N * 8) gold \<and> concat gold \<noteq> [] \<longrightarrow>
            (\<exists>pred ins.
               predict_codebooks False (hierarchical_classifier att 8 N w b) decoded gold =
                 Inr (pred, ins) \<and>
               length ins = N \<and>
               (\<forall>k < N. cat_dim2 (decoded # take k (torch_split gold 8)) = Inr (ins ! k) \<and>
                          has_width (att + k * 8) (ins ! k)))) \<and>
         (\<exists>pred ins.
            predict_codebooks True (hierarchical_classifier att cd N w b) decoded gold =
              Inr (pred, ins) \<and>
            length ins = N \<and> length pred = Suc N \<and> pred ! 0 = decoded \<and>
            (\<forall>k < N. cat_dim2 (take (Suc k) pred) = Inr (ins ! k) \<and>
                       has_width (att + k * cd) (ins ! k) \<and> has_width cd (pred ! Suc k))) \<and>
         decoder_inputs layers decoded upsampled = replicate (length layers) decoded"
proof (intro conjI impI)
  assume a: "same_shape decoded gold \<and> has_width (N * 8) gold \<and> concat gold \<noteq> []"
  then have sg: "same_shape decoded gold" and wg: "has_width (N * 8) gold"
    and ne: "concat gold \<noteq> []" by simp_all
  let ?chunks = "torch_split gold 8"
  note sp = split_gold[OF wg ne]
  have ch: "\<forall>j < N. same_shape decoded (?chunks ! j) \<and> has_width 8 (?chunks ! j)"
    using sp(3) sg by (auto intro: same_shape_trans)
  from classify_train[OF assms sp(2) ch, of 0 "[decoded]" "[]" w b "[decoded]"]
  obtain pred ins where
    r: "classify False (map (\<lambda>head. Linear (att + head * 8) 8 (w head) (b head)) [0..<N])
          0 ?chunks [decoded] [decoded] [] = Inr (pred, ins)"
    and l: "length ins = N"
    and each: "\<forall>j. 0 \<le> j \<and> j < N \<longrightarrow>
              cat_dim2 (decoded # take j ?chunks) = Inr (ins ! j) \<and>
              has_width (att + j * 8) (ins ! j)"
    by auto
  have "predict_codebooks False (hierarchical_classifier att 8 N w b) decoded gold = Inr (pred, ins)"
    using r sp(1) by (simp add: predict_codebooks_def hierarchical_classifier_def)
  then show "\<exists>pred ins.
               predict_codebooks False (hierarchical_classifier att 8 N w b) decoded gold =
                 Inr (pred, ins) \<and>
               length ins = N \<and>
               (\<forall>k < N. cat_dim2 (decoded # take k (torch_split gold 8)) = Inr (ins ! k) \<and>
                          has_width (att + k * 8) (ins ! k))"
    using l each by auto
next
  from classify_infer[OF assms, of 0 N "[decoded]" "[]" cd "[]" w b "[]" "[]"]
  obtain pred ins where
    r: "classify True (map (\<lambda>head. Linear (att + head * cd) cd (w head) (b head)) [0..<N])
          0 [] [] [decoded] [] = Inr (pred, ins)"
    and l: "length ins = N" "length pred = Suc N"
    and t: "take (Suc 0) pred = [decoded]"
    and each: "\<forall>j. 0 \<le> j \<and> j < N \<longrightarrow>
              cat_dim2 (take (Suc j) pred) = Inr (ins ! j) \<and>
              has_width (att + j * cd) (ins ! j) \<and> has_width cd (pred ! Suc j)"
    by auto
  have p0: "pred ! 0 = decoded"
  proof -
    have "pred ! 0 = take (Suc 0) pred ! 0" by simp
    then show ?thesis unfolding t by simp
  qed
  have "predict_codebooks True (hierarchical_classifier att cd N w b) decoded gold = Inr (pred, ins)"
    using r by (simp add: predict_codebooks_def hierarchical_classifier_def)
  then show "\<exists>pred ins.
            predict_codebooks True (hierarchical_classifier att cd N w b) decoded gold =
              Inr (pred, ins) \<and>
            length ins = N \<and> length pred = Suc N \<and> pred ! 0 = decoded \<and>
            (\<forall>k < N. cat_dim2 (take (Suc k) pred) = Inr (ins ! k) \<and>
                       has_width (att + k * cd) (ins ! k) \<and> has_width cd (pred ! Suc k))"
    using l p0 each by auto
next
  show "decoder_inputs layers decoded upsampled = replicate (length layers) decoded"
    using codebook_loop_inputs[of layers decoded upsampled "[]" "[]" "[]"]
    by (simp add: decoder_inputs_def)
qed


lemma demo_infer:
  "predict_codebooks True (hierarchical_classifier 1 1 2 ones zeros) [[[2]]] [] =
     Inr ([[[[2]]], [[[2]]], [[[4]]]], [[[[2]]], [[[2, 2]]]])"
  by code_simp

lemma demo_train_input:
  "cat_dim2 ([[[2]]] # take 1 (torch_split demo_gold 8)) = Inr [[[2, 1, 2, 3, 4, 5, 6, 7, 8]]]"
  by code_simp

text \<open>
  With a codebook dimension other than 8 the chunks of line 378 do not have the width that
  the heads were built for: with a codebook dimension of 4 and two codebooks the second
  head is handed frames of 9 features where it expects 5.
\<close>

lemma split_width_is_constant:
  "predict_codebooks False (hierarchical_classifier 1 4 2 ones zeros) [[[2]]]
     [[[1, 2, 3, 4, 5, 6, 7, 8]]] = Inl RuntimeError"
  by code_simp

lemma demo_inference_arch:
  "decoder_inputs demo_layers [[[2::real]]] [[[0]]] = [[[[2]]], [[[2]]]]"
  by (simp add: decoder_inputs_def demo_layers_def Let_def)


theorem head_inputs_chain_witness:
  "has_width 1 [[[2]]] \<and> same_shape [[[2]]] demo_gold \<and> has_width (2 * 8) demo_gold \<and>
   concat demo_gold \<noteq> [] \<and>
   (\<exists>pred ins.
      predict_codebooks False (hierarchical_classifier 1 8 2 ones zeros) [[[2]]] demo_gold =
        Inr (pred, ins) \<and>
      length ins = 2 \<and> ins ! 1 = [[[2, 1, 2, 3, 4, 5, 6, 7, 8]]] \<and>
      has_width (1 + 1 * 8) (ins ! 1))"
proof -
  have h: "has_width 1 [[[2::real]]]" by (simp add: has_width_def)
  have g: "same_shape [[[2]]] demo_gold \<and> has_width (2 * 8) demo_gold \<and> concat demo_gold \<noteq> []"
    by (simp add: same_shape_def has_width_def demo_gold_def)
  from head_inputs_chain[OF h, where gold = demo_gold and N = 2 and w = ones and b = zeros] g
  obtain pred ins where
    r: "predict_codebooks False (hierarchical_classifier 1 8 2 ones zeros) [[[2]]] demo_gold =
          Inr (pred, ins)"
    and l: "length ins = 2"
    and each: "\<forall>k < 2. cat_dim2 ([[[2]]] # take k (torch_split demo_gold 8)) = Inr (ins ! k) \<and>
                        has_width (1 + k * 8) (ins ! k)"
    by blast
  have one: "(1::nat) < 2" by simp
  from each[rule_format, OF one]
  have c: "cat_dim2 ([[[2]]] # take 1 (torch_split demo_gold 8)) = Inr (ins ! 1)"
    and w: "has_width (1 + 1 * 8) (ins ! 1)" by blast+
  have "ins ! 1 = [[[2, 1, 2, 3, 4, 5, 6, 7, 8]]]"
    using c demo_train_input by simp
  with h g r l w show ?thesis by blast
qed

text \<open>
  C1 as the claim words it fails for the inference architecture: with frames of one
  feature and a codebook dimension of one, the second codebook decoder is applied to the
  decoder output, whose frames have one feature, not two.
\<close>

theorem head_inputs_chain_counterexample:
  "decoder_inputs demo_layers [[[2]]] [[[0]]] = [[[[2]]], [[[2]]]] \<and>
   has_width 1 [[[2]]] \<and> \<not> has_width (1 + 1 * 1) [[[2]]]"
  by (simp add: decoder_inputs_def demo_layers_def Let_def has_width_def)

end
